theory Spec2Isabelle
  imports Complex_Main
begin

section \<open>Python values and strings\<close>

text \<open>
  The program is \<^verbatim>\<open>attendance_transfer.py\<close>. Python strings are modelled as
  \<open>string\<close> (lists of 8-bit characters), so the model covers ASCII text; Python's
  unbounded integers are \<open>int\<close>. Every exception the modelled code can raise is a
  value of \<open>py_error\<close>, and a function that can raise returns \<open>py_error + 'a\<close>.
\<close>

datatype py_error = ValueError | OverflowError | IndexError | TypeError

text \<open>
  The characters that \<^verbatim>\<open>str.strip()\<close> removes and that \<^verbatim>\<open>int(str)\<close> skips on both
  sides, among the ASCII characters: tab, line feed, vertical tab, form feed, carriage
  return, the four separators 0x1C to 0x1F, and the space.
\<close>

definition is_space :: "char \<Rightarrow> bool" where
  "is_space c = (c \<in> set [CHR 0x09, CHR 0x0A, CHR 0x0B, CHR 0x0C, CHR 0x0D,
                           CHR 0x1C, CHR 0x1D, CHR 0x1E, CHR 0x1F, CHR 0x20])"

definition strip :: "string \<Rightarrow> string" where
  "strip s = rev (dropWhile is_space (rev (dropWhile is_space s)))"

text \<open>\<^verbatim>\<open>s.split(sep)\<close> for a one-character separator: never the empty list.\<close>

fun split_on :: "char \<Rightarrow> string \<Rightarrow> string list" where
  "split_on sep [] = [[]]"
| "split_on sep (x # xs) =
     (if x = sep then [] # split_on sep xs
      else (case split_on sep xs of
              [] \<Rightarrow> [[x]]
            | p # ps \<Rightarrow> (x # p) # ps))"

definition is_digit :: "char \<Rightarrow> bool" where
  "is_digit c = (c \<in> set ''0123456789'')"

definition digit_val :: "char \<Rightarrow> nat" where
  "digit_val c = of_char c - 48"

definition digits_val :: "string \<Rightarrow> nat" where
  "digits_val s = foldl (\<lambda>a c. 10 * a + digit_val c) 0 s"

text \<open>\<^verbatim>\<open>str.isdigit()\<close> on ASCII text: non-empty and every character a decimal digit.\<close>

definition isdigit :: "string \<Rightarrow> bool" where
  "isdigit s = (s \<noteq> [] \<and> list_all is_digit s)"

text \<open>
  The digits of a decimal literal as \<^verbatim>\<open>int(str)\<close> accepts them: digits, with single
  underscores allowed between two digits only.
\<close>

fun digit_group :: "string \<Rightarrow> bool" where
  "digit_group [] = False"
| "digit_group [c] = is_digit c"
| "digit_group (c # d # cs) =
     (if is_digit c then
        (if d = CHR ''_'' then digit_group cs else digit_group (d # cs))
      else False)"

text \<open>
  \<^verbatim>\<open>int(s)\<close> for a string, base 10: surrounding whitespace is skipped, one sign is
  allowed, then a digit group; anything else raises \<^verbatim>\<open>ValueError\<close>. (The interpreter's
  configurable limit on the number of digits, 4300 by default, is not modelled.)
\<close>

definition py_int_str :: "string \<Rightarrow> py_error + int" where
  "py_int_str s =
     (let t = strip s;
          (neg, body) = (case t of
                           [] \<Rightarrow> (False, [])
                         | c # cs \<Rightarrow> if c = CHR ''-'' then (True, cs)
                                     else if c = CHR ''+'' then (False, cs)
                                     else (False, t))
      in if digit_group body
         then (let v = int (digits_val (filter (\<lambda>c. c \<noteq> CHR ''_'') body))
               in Inr (if neg then - v else v))
         else Inl ValueError)"

text \<open>\<^verbatim>\<open>str(n)\<close> for an integer: its decimal digits, with a minus sign when negative.\<close>

definition digit_char :: "nat \<Rightarrow> char" where
  "digit_char d = char_of (48 + d)"

fun str_nat :: "nat \<Rightarrow> string" where
  "str_nat n = (if n < 10 then [digit_char n] else str_nat (n div 10) @ [digit_char (n mod 10)])"

declare str_nat.simps [simp del]

definition str_int :: "int \<Rightarrow> string" where
  "str_int i = (if i < 0 then CHR ''-'' # str_nat (nat (- i)) else str_nat (nat i))"

section \<open>Timestamps\<close>

text \<open>
  A \<^verbatim>\<open>datetime\<close> with its seven fields. Python only builds objects whose fields are in
  range (\<open>valid_datetime\<close>): years 1 to 9999, a day that exists in its month. The
  completion times are modelled as the signature of \<^verbatim>\<open>calculate_attendance\<close> declares
  them, as \<^verbatim>\<open>datetime\<close>; the nanoseconds and the narrower range of the \<^verbatim>\<open>Timestamp\<close> that
  pandas reads from a file are not modelled.
\<close>

record datetime =
  year :: nat
  month :: nat
  day :: nat
  hour :: nat
  minute :: nat
  second :: nat
  microsecond :: nat

definition is_leap :: "nat \<Rightarrow> bool" where
  "is_leap y = (y mod 4 = 0 \<and> (y mod 100 \<noteq> 0 \<or> y mod 400 = 0))"

definition days_in_month :: "nat \<Rightarrow> nat \<Rightarrow> nat" where
  "days_in_month y m =
     (if m = 2 then (if is_leap y then 29 else 28)
      else if m \<in> {4, 6, 9, 11} then 30 else 31)"

definition valid_datetime :: "datetime \<Rightarrow> bool" where
  "valid_datetime t =
     (1 \<le> year t \<and> year t \<le> 9999 \<and> 1 \<le> month t \<and> month t \<le> 12 \<and>
      1 \<le> day t \<and> day t \<le> days_in_month (year t) (month t) \<and>
      hour t < 24 \<and> minute t < 60 \<and> second t < 60 \<and> microsecond t < 1000000)"

text \<open>
  The proleptic Gregorian ordinal of a date (\<^verbatim>\<open>date.toordinal()\<close>, 1 for 0001-01-01), as
  the standard library computes it.
\<close>

definition days_before_year :: "nat \<Rightarrow> nat" where
  "days_before_year y = (y - 1) * 365 + (y - 1) div 4 - (y - 1) div 100 + (y - 1) div 400"

definition days_before_month :: "nat \<Rightarrow> nat \<Rightarrow> nat" where
  "days_before_month y m =
     [0, 0, 31, 59, 90, 120, 151, 181, 212, 243, 273, 304, 334] ! m
       + (if 2 < m \<and> is_leap y then 1 else 0)"

definition toordinal :: "datetime \<Rightarrow> nat" where
  "toordinal t = days_before_year (year t) + days_before_month (year t) (month t) + day t"

text \<open>
  The instant of a timestamp: the microseconds since the midnight that starts ordinal
  day 0. Comparing two valid timestamps field by field, as Python does, is comparing
  their instants; adding a \<^verbatim>\<open>timedelta\<close> adds to the instant.
\<close>

definition instant :: "datetime \<Rightarrow> int" where
  "instant t =
     (((int (toordinal t) * 24 + int (hour t)) * 60 + int (minute t)) * 60 + int (second t))
        * 1000000 + int (microsecond t)"

definition min_instant :: int where
  "min_instant = 1 * 24 * 60 * 60 * 1000000"

definition max_instant :: int where
  "max_instant = (((3652059 * 24 + 23) * 60 + 59) * 60 + 59) * 1000000 + 999999"

text \<open>
  \<^verbatim>\<open>t.replace(hour=h, minute=m, second=0, microsecond=0)\<close>: \<^verbatim>\<open>ValueError\<close> when the hour
  or the minute is out of range.
\<close>

definition replace_time :: "datetime \<Rightarrow> int \<Rightarrow> int \<Rightarrow> py_error + datetime" where
  "replace_time t h m =
     (if 0 \<le> h \<and> h \<le> 23 \<and> 0 \<le> m \<and> m \<le> 59
      then Inr (t\<lparr>hour := nat h, minute := nat m, second := 0, microsecond := 0\<rparr>)
      else Inl ValueError)"

text \<open>
  \<^verbatim>\<open>t + timedelta(minutes=d)\<close>, kept as the instant of the sum, which is all the program
  looks at. \<^verbatim>\<open>timedelta\<close> raises \<^verbatim>\<open>OverflowError\<close> beyond 999999999 days either way, and
  so does the addition when the sum leaves the years 1 to 9999.
\<close>

definition add_minutes :: "datetime \<Rightarrow> int \<Rightarrow> py_error + int" where
  "add_minutes t d =
     (if d div 1440 < - 999999999 \<or> 999999999 < d div 1440 then Inl OverflowError
      else (let i = instant t + d * 60000000
            in if i < min_instant \<or> max_instant < i then Inl OverflowError else Inr i))"

text \<open>\<^verbatim>\<open>int(x)\<close> for a float: truncation towards zero.\<close>

definition py_trunc :: "real \<Rightarrow> int" where
  "py_trunc q = (if 0 \<le> q then \<lfloor>q\<rfloor> else \<lceil>q\<rceil>)"

section \<open>The attendance calculator\<close>

text \<open>
  The accepted start times: \<^verbatim>\<open>parse_arguments\<close> lets a string through when
  \<^verbatim>\<open>re.match(r'^([0-1]?[0-9]|2[0-3]):[0-5][0-9]$', s)\<close> succeeds. The \<^verbatim>\<open>$\<close> of
  Python's \<^verbatim>\<open>re\<close> also matches just before one final line feed.
\<close>

definition hour_digits :: "string \<Rightarrow> bool" where
  "hour_digits s =
     (case s of
        [a] \<Rightarrow> is_digit a
      | [a, b] \<Rightarrow> (a \<in> set ''01'' \<and> is_digit b) \<or> (a = CHR ''2'' \<and> b \<in> set ''0123'')
      | _ \<Rightarrow> False)"

definition minute_digits :: "string \<Rightarrow> bool" where
  "minute_digits s =
     (case s of
        [a, b] \<Rightarrow> a \<in> set ''012345'' \<and> is_digit b
      | _ \<Rightarrow> False)"

definition match_hh_mm :: "string \<Rightarrow> bool" where
  "match_hh_mm s =
     (case split_on (CHR '':'') s of
        [h, m] \<Rightarrow> hour_digits h \<and> minute_digits m
      | _ \<Rightarrow> False)"

definition valid_start_time :: "string \<Rightarrow> bool" where
  "valid_start_time s =
     (match_hh_mm s \<or> (s \<noteq> [] \<and> last s = CHR 0x0A \<and> match_hh_mm (butlast s)))"

text \<open>
  \<^verbatim>\<open>start_hour, start_minute = map(int, start_time_str.split(':'))\<close>: a \<^verbatim>\<open>ValueError\<close>
  when there are not exactly two fields or one of them is no integer.
\<close>

definition parse_start_time :: "string \<Rightarrow> py_error + (int \<times> int)" where
  "parse_start_time s =
     (case split_on (CHR '':'') s of
        [a, b] \<Rightarrow>
          (case py_int_str a of
             Inl e \<Rightarrow> Inl e
           | Inr h \<Rightarrow>
               (case py_int_str b of
                  Inl e \<Rightarrow> Inl e
                | Inr m \<Rightarrow> Inr (h, m)))
      | _ \<Rightarrow> Inl ValueError)"

text \<open>The local \<^verbatim>\<open>class_start\<close> and \<^verbatim>\<open>class_end\<close> of \<^verbatim>\<open>calculate_attendance\<close>.\<close>

definition class_start :: "datetime \<Rightarrow> string \<Rightarrow> py_error + datetime" where
  "class_start completion_time start_time_str =
     (case parse_start_time start_time_str of
        Inl e \<Rightarrow> Inl e
      | Inr (start_hour, start_minute) \<Rightarrow> replace_time completion_time start_hour start_minute)"

definition class_end :: "datetime \<Rightarrow> string \<Rightarrow> int \<Rightarrow> py_error + int" where
  "class_end completion_time start_time_str duration_minutes =
     (case class_start completion_time start_time_str of
        Inl e \<Rightarrow> Inl e
      | Inr cs \<Rightarrow> add_minutes cs duration_minutes)"

text \<open>
  \<^verbatim>\<open>calculate_attendance\<close>. The quotient \<^verbatim>\<open>total_seconds() / 60\<close> is a float in the
  program and an exact real number here: the two timestamps lie on the same day, so the
  quotient is below 1440 and, when it is not a whole number, at least 1/60000000 away
  from one, far more than the rounding error of a double; the truncation is the same.
\<close>

definition calculate_attendance :: "datetime \<Rightarrow> string \<Rightarrow> int \<Rightarrow> py_error + (string \<times> int)" where
  "calculate_attendance completion_time start_time_str duration_minutes =
     (case class_start completion_time start_time_str of
        Inl e \<Rightarrow> Inl e
      | Inr cs \<Rightarrow>
          (case add_minutes cs duration_minutes of
             Inl e \<Rightarrow> Inl e
           | Inr ce \<Rightarrow>
               if instant completion_time \<le> instant cs then Inr (''Y'', duration_minutes)
               else if ce \<le> instant completion_time then Inr (''N'', 0)
               else (let minutes_late =
                           (of_int (instant completion_time - instant cs) / 1000000) / 60;
                         minutes_present = duration_minutes - py_trunc minutes_late
                     in Inr (''Y'', minutes_present))))"


section \<open>Cells, tables and form records\<close>

text \<open>
  The values a cell of a table can hold: \<^verbatim>\<open>None\<close>, the float \<^verbatim>\<open>nan\<close> (an empty cell of
  a table read by pandas), a string, an integer, a finite float other than \<^verbatim>\<open>nan\<close> (with
  its exact value) and a boolean. Date cells and infinite floats are left out.
\<close>

datatype pyval = PNone | PNaN | PStr string | PInt int | PFloat real | PBool bool

text \<open>\<^verbatim>\<open>pd.isna(v)\<close> for a scalar.\<close>

definition isna :: "pyval \<Rightarrow> bool" where
  "isna v = (v = PNone \<or> v = PNaN)"

text \<open>\<^verbatim>\<open>int(v)\<close>.\<close>

definition py_int :: "pyval \<Rightarrow> py_error + int" where
  "py_int v =
     (case v of
        PNone \<Rightarrow> Inl TypeError
      | PNaN \<Rightarrow> Inl ValueError
      | PStr s \<Rightarrow> py_int_str s
      | PInt i \<Rightarrow> Inr i
      | PFloat q \<Rightarrow> Inr (py_trunc q)
      | PBool b \<Rightarrow> Inr (if b then 1 else 0))"

text \<open>
  \<^verbatim>\<open>str(v)\<close>. The decimal text of a float (its shortest representation that reads back
  as the same float) is a parameter \<open>float_repr\<close> of the model.
\<close>

definition py_str :: "(real \<Rightarrow> string) \<Rightarrow> pyval \<Rightarrow> string" where
  "py_str float_repr v =
     (case v of
        PNone \<Rightarrow> ''None''
      | PNaN \<Rightarrow> ''nan''
      | PStr s \<Rightarrow> s
      | PInt i \<Rightarrow> str_int i
      | PFloat q \<Rightarrow> float_repr q
      | PBool b \<Rightarrow> (if b then ''True'' else ''False''))"

text \<open>
  A table (a pandas \<^verbatim>\<open>DataFrame\<close> read without a header, or the sheet that \<^verbatim>\<open>xlrd\<close>
  opens): its shape and its cells by position. \<^verbatim>\<open>iloc\<close> raises \<^verbatim>\<open>IndexError\<close> outside
  the shape, for a read and for a write.
\<close>

record dataframe =
  nrows :: nat
  ncols :: nat
  cells :: "nat \<Rightarrow> nat \<Rightarrow> pyval"

definition iloc_get :: "dataframe \<Rightarrow> nat \<Rightarrow> nat \<Rightarrow> py_error + pyval" where
  "iloc_get df r c = (if r < nrows df \<and> c < ncols df then Inr (cells df r c) else Inl IndexError)"

definition iloc_set :: "dataframe \<Rightarrow> nat \<Rightarrow> nat \<Rightarrow> pyval \<Rightarrow> py_error + dataframe" where
  "iloc_set df r c v =
     (if r < nrows df \<and> c < ncols df
      then Inr (df\<lparr>cells := (cells df)(r := (cells df r)(c := v))\<rparr>)
      else Inl IndexError)"

text \<open>What the program prints, as a list of messages in the order printed.\<close>

datatype message =
    WarnNonNumeric string
  | ErrorExtracting string
  | WarnDateNotFound string string
  | WarnStudentNotFound string
  | Updated string string string int
  | MarkedAbsent pyval string

section \<open>The identifier normalizer and the date normalizer\<close>








record form_record =
  fr_student_id :: string
  fr_date :: string
  fr_completion_time :: datetime


section \<open>The roster indexer\<close>

text \<open>
  The loop of \<^verbatim>\<open>read_template_file\<close> over \<^verbatim>\<open>enumerate(date_row)\<close>, and the function: the
  two \<^verbatim>\<open>iloc\<close> reads of rows 3 and 4 raise \<^verbatim>\<open>IndexError\<close> on a shorter table, and the
  handler prints the error and raises it again.
\<close>

type_synonym date_columns = "string \<rightharpoonup> nat \<times> nat"

fun scan_date_row :: "(nat \<times> pyval) list \<Rightarrow> date_columns \<Rightarrow> date_columns" where
  "scan_date_row [] dc = dc"
| "scan_date_row ((col_idx, date_val) # rest) dc =
     scan_date_row rest
       (case date_val of
          PStr s \<Rightarrow> if CHR ''/'' \<in> set s then dc(s \<mapsto> (col_idx, col_idx + 1)) else dc
        | _ \<Rightarrow> dc)"

definition read_template_file :: "dataframe \<Rightarrow> py_error + (dataframe \<times> date_columns)" where
  "read_template_file df =
     (if nrows df \<le> 3 then Inl IndexError
      else if nrows df \<le> 4 then Inl IndexError
      else (let date_row = map (cells df 3) [0..<ncols df]
            in Inr (df, scan_date_row (List.enumerate 0 date_row) Map.empty)))"


section \<open>The reconciler\<close>

text \<open>
  \<^verbatim>\<open>float(s)\<close> for a string of digits is the double nearest to the number (ties to the
  even mantissa), or \<^verbatim>\<open>inf\<close> beyond the largest double; \<open>round_double\<close> computes it on
  the integers, \<open>None\<close> standing for \<^verbatim>\<open>inf\<close>. The program only passes \<^verbatim>\<open>float\<close> the
  strings that \<^verbatim>\<open>extract_student_id\<close> returned, which are strings of digits; on any other
  string the model answers \<^verbatim>\<open>ValueError\<close>, as Python does for most of them, and no
  theorem below is about such a string.
\<close>

fun bit_length :: "nat \<Rightarrow> nat" where
  "bit_length n = (if n = 0 then 0 else Suc (bit_length (n div 2)))"

declare bit_length.simps [simp del]

definition round_double :: "nat \<Rightarrow> nat option" where
  "round_double n =
     (if bit_length n \<le> 53 then Some n
      else (let e = bit_length n - 53;
                q = n div 2 ^ e;
                r = n mod 2 ^ e;
                half = 2 ^ (e - 1);
                q' = (if half < r \<or> (r = half \<and> odd q) then q + 1 else q);
                v = q' * 2 ^ e
            in if 2 ^ 1024 \<le> v then None else Some v))"

definition py_float_str :: "string \<Rightarrow> py_error + real option" where
  "py_float_str s =
     (if isdigit s then Inr (map_option real (round_double (digits_val s))) else Inl ValueError)"

definition py_int_float :: "real option \<Rightarrow> py_error + int" where
  "py_int_float f = (case f of None \<Rightarrow> Inl OverflowError | Some q \<Rightarrow> Inr (py_trunc q))"

text \<open>\<^verbatim>\<open>int(float(form_row['student_id']))\<close> and its \<^verbatim>\<open>str\<close>.\<close>

definition form_student_int :: "string \<Rightarrow> py_error + int" where
  "form_student_int s =
     (case py_float_str s of
        Inl e \<Rightarrow> Inl e
      | Inr f \<Rightarrow> py_int_float f)"

definition form_student_key :: "string \<Rightarrow> py_error + string" where
  "form_student_key s =
     (case form_student_int s of
        Inl e \<Rightarrow> Inl e
      | Inr i \<Rightarrow> Inr (str_int i))"

text \<open>
  \<^verbatim>\<open>str(int(updated_df.iloc[row_idx, 0])) if pd.notna(updated_df.iloc[row_idx, 0]) else None\<close>.
\<close>

definition template_student_id :: "pyval \<Rightarrow> py_error + string option" where
  "template_student_id v =
     (if isna v then Inr None
      else (case py_int v of
              Inl e \<Rightarrow> Inl e
            | Inr i \<Rightarrow> Inr (Some (str_int i))))"

text \<open>
  The inner loop of the first phase, up to its \<^verbatim>\<open>break\<close>: the first row from the given
  ones whose identifier equals \<open>student_id\<close>; an identifier cell before it that cannot be
  converted raises.
\<close>

fun find_student :: "dataframe \<Rightarrow> string \<Rightarrow> nat list \<Rightarrow> py_error + nat option" where
  "find_student updated_df student_id [] = Inr None"
| "find_student updated_df student_id (row_idx # rest) =
     (case iloc_get updated_df row_idx 0 of
        Inl e \<Rightarrow> Inl e
      | Inr v \<Rightarrow>
          (case template_student_id v of
             Inl e \<Rightarrow> Inl e
           | Inr tid \<Rightarrow>
               if tid = Some student_id then Inr (Some row_idx)
               else find_student updated_df student_id rest))"

text \<open>The body of the loop over the form submissions, on the table and the messages.\<close>

definition process_form_row ::
  "date_columns \<Rightarrow> string \<Rightarrow> int \<Rightarrow> dataframe \<times> message list \<Rightarrow> form_record
     \<Rightarrow> py_error + (dataframe \<times> message list)" where
  "process_form_row date_columns start_time duration st form_row =
     (case st of (updated_df, msgs) \<Rightarrow>
        (case form_student_key (fr_student_id form_row) of
           Inl e \<Rightarrow> Inl e
         | Inr student_id \<Rightarrow>
             (case date_columns (fr_date form_row) of
                None \<Rightarrow> Inr (updated_df, msgs @ [WarnDateNotFound (fr_date form_row) student_id])
              | Some (code_col, minutes_col) \<Rightarrow>
                  (case find_student updated_df student_id [5..<nrows updated_df] of
                     Inl e \<Rightarrow> Inl e
                   | Inr None \<Rightarrow> Inr (updated_df, msgs @ [WarnStudentNotFound student_id])
                   | Inr (Some row_idx) \<Rightarrow>
                       (case calculate_attendance (fr_completion_time form_row) start_time duration of
                          Inl e \<Rightarrow> Inl e
                        | Inr (code, minutes) \<Rightarrow>
                            (case iloc_set updated_df row_idx code_col (PStr code) of
                               Inl e \<Rightarrow> Inl e
                             | Inr df1 \<Rightarrow>
                                 (case iloc_set df1 row_idx minutes_col (PInt minutes) of
                                    Inl e \<Rightarrow> Inl e
                                  | Inr df2 \<Rightarrow>
                                      Inr (df2, msgs @ [Updated student_id (fr_date form_row)
                                                         code minutes]))))))))"

fun apply_responses ::
  "date_columns \<Rightarrow> string \<Rightarrow> int \<Rightarrow> dataframe \<times> message list \<Rightarrow> form_record list
     \<Rightarrow> py_error + (dataframe \<times> message list)" where
  "apply_responses date_columns start_time duration st [] = Inr st"
| "apply_responses date_columns start_time duration st (form_row # rest) =
     (case process_form_row date_columns start_time duration st form_row of
        Inl e \<Rightarrow> Inl e
      | Inr st' \<Rightarrow> apply_responses date_columns start_time duration st' rest)"

text \<open>
  The second phase: for one date, the loop over the rows; then the loop over the dates
  of the form data, in the order of their first appearance (\<^verbatim>\<open>unique()\<close>).
\<close>

fun mark_rows ::
  "nat \<Rightarrow> nat \<Rightarrow> string \<Rightarrow> dataframe \<times> message list \<Rightarrow> nat list
     \<Rightarrow> py_error + (dataframe \<times> message list)" where
  "mark_rows code_col minutes_col date st [] = Inr st"
| "mark_rows code_col minutes_col date st (row_idx # rest) =
     (case st of (updated_df, msgs) \<Rightarrow>
        (case iloc_get updated_df row_idx code_col of
           Inl e \<Rightarrow> Inl e
         | Inr current_code \<Rightarrow>
             if current_code = PStr ''--'' then
               (case iloc_set updated_df row_idx code_col (PStr ''N'') of
                  Inl e \<Rightarrow> Inl e
                | Inr df1 \<Rightarrow>
                    (case iloc_set df1 row_idx minutes_col (PInt 0) of
                       Inl e \<Rightarrow> Inl e
                     | Inr df2 \<Rightarrow>
                         (case iloc_get df2 row_idx 0 of
                            Inl e \<Rightarrow> Inl e
                          | Inr student_id \<Rightarrow>
                              mark_rows code_col minutes_col date
                                (df2, msgs @ [MarkedAbsent student_id date]) rest)))
             else mark_rows code_col minutes_col date st rest))"

fun mark_absences ::
  "date_columns \<Rightarrow> dataframe \<times> message list \<Rightarrow> string list
     \<Rightarrow> py_error + (dataframe \<times> message list)" where
  "mark_absences date_columns st [] = Inr st"
| "mark_absences date_columns st (date # rest) =
     (case date_columns date of
        None \<Rightarrow> mark_absences date_columns st rest
      | Some (code_col, minutes_col) \<Rightarrow>
          (case mark_rows code_col minutes_col date st [5..<nrows (fst st)] of
             Inl e \<Rightarrow> Inl e
           | Inr st' \<Rightarrow> mark_absences date_columns st' rest))"

fun unique :: "'a list \<Rightarrow> 'a list" where
  "unique [] = []"
| "unique (x # xs) = x # unique (filter (\<lambda>y. y \<noteq> x) xs)"

definition update_attendance_data ::
  "form_record list \<Rightarrow> dataframe \<Rightarrow> date_columns \<Rightarrow> string \<Rightarrow> int
     \<Rightarrow> py_error + (dataframe \<times> message list)" where
  "update_attendance_data forms_df template_df date_columns start_time duration =
     (let updated_df = template_df;
          dates_in_forms = unique (map fr_date forms_df)
      in case apply_responses date_columns start_time duration (updated_df, []) forms_df of
           Inl e \<Rightarrow> Inl e
         | Inr st \<Rightarrow> mark_absences date_columns st dates_in_forms)"

section \<open>The selective writer\<close>

text \<open>
  The output workbook: the cells of its first sheet, which start as a copy of the
  original sheet's, and the positions written since, in the order written.
\<close>

record worksheet =
  content :: "nat \<Rightarrow> nat \<Rightarrow> pyval"
  written :: "(nat \<times> nat) list"

definition xlutils_copy :: "dataframe \<Rightarrow> worksheet" where
  "xlutils_copy rs = \<lparr>content = cells rs, written = []\<rparr>"

definition ws_write :: "worksheet \<Rightarrow> nat \<Rightarrow> nat \<Rightarrow> pyval \<Rightarrow> worksheet" where
  "ws_write ws r c v =
     ws\<lparr>content := (content ws)(r := (content ws r)(c := v)), written := written ws @ [(r, c)]\<rparr>"

text \<open>
  \<^verbatim>\<open>str(v) if v is not None and v != '' else ""\<close>, the text under which the program
  compares an original and an updated value.
\<close>

definition compare_str :: "(real \<Rightarrow> string) \<Rightarrow> pyval \<Rightarrow> string" where
  "compare_str float_repr v = (if v \<noteq> PNone \<and> v \<noteq> PStr [] then py_str float_repr v else [])"

text \<open>
  The value \<^verbatim>\<open>ws.write\<close> receives: the updated value itself when it is an \<^verbatim>\<open>int\<close> or a
  \<^verbatim>\<open>float\<close> (a \<^verbatim>\<open>bool\<close> is an \<^verbatim>\<open>int\<close>), its \<^verbatim>\<open>str\<close> otherwise.
\<close>

definition write_value :: "(real \<Rightarrow> string) \<Rightarrow> pyval \<Rightarrow> pyval" where
  "write_value float_repr v =
     (case v of
        PInt i \<Rightarrow> v
      | PFloat q \<Rightarrow> v
      | PBool b \<Rightarrow> v
      | _ \<Rightarrow> PStr (py_str float_repr v))"

text \<open>The body of the two nested loops of \<^verbatim>\<open>save_updated_template\<close>, and the loops.\<close>

definition save_cell ::
  "(real \<Rightarrow> string) \<Rightarrow> dataframe \<Rightarrow> dataframe \<Rightarrow> nat \<Rightarrow> nat \<Rightarrow> worksheet \<Rightarrow> worksheet" where
  "save_cell float_repr df rs row_idx col_idx ws =
     (let updated_value = cells df row_idx col_idx
      in if isna updated_value then ws
         else if row_idx < nrows rs \<and> col_idx < ncols rs then
           (let original_value = cells rs row_idx col_idx;
                orig_str = compare_str float_repr original_value;
                updated_str = compare_str float_repr updated_value
            in if orig_str \<noteq> updated_str
               then ws_write ws row_idx col_idx (write_value float_repr updated_value)
               else ws)
         else ws_write ws row_idx col_idx (write_value float_repr updated_value))"

definition save_updated_template ::
  "(real \<Rightarrow> string) \<Rightarrow> dataframe \<Rightarrow> dataframe \<Rightarrow> worksheet" where
  "save_updated_template float_repr df rs =
     fold (\<lambda>row_idx ws. fold (\<lambda>col_idx ws. save_cell float_repr df rs row_idx col_idx ws)
                            [0..<ncols df] ws)
          [0..<nrows df] (xlutils_copy rs)"

section \<open>The run\<close>


section \<open>Example inputs\<close>

text \<open>A timestamp on 26 November 2024, and a table from its rows.\<close>

definition nov26 :: "nat \<Rightarrow> nat \<Rightarrow> nat \<Rightarrow> nat \<Rightarrow> datetime" where
  "nov26 h m s us =
     \<lparr>year = 2024, month = 11, day = 26, hour = h, minute = m, second = s, microsecond = us\<rparr>"

definition table_of :: "nat \<Rightarrow> pyval list list \<Rightarrow> dataframe" where
  "table_of n rows =
     \<lparr>nrows = length rows, ncols = n,
      cells = (\<lambda>r c. if r < length rows \<and> c < length (rows ! r) then rows ! r ! c else PNaN)\<rparr>"


definition header_example :: dataframe where
  "header_example = table_of 5
     [[PStr ''Course'', PNaN, PNaN, PNaN, PNaN],
      [PNaN, PNaN, PNaN, PNaN, PNaN],
      [PNaN, PNaN, PNaN, PNaN, PNaN],
      [PStr ''ID'', PStr ''26/11'', PNaN, PStr ''26/11'', PStr ''n/a''],
      [PNaN, PStr ''Code'', PStr ''Minutes'', PStr ''Code'', PStr ''Minutes''],
      [PInt 4186054, PStr ''--'', PStr ''--'', PStr ''--'', PStr ''--'']]"

text \<open>
  A sheet as \<^verbatim>\<open>xlrd\<close> returns it (every number a float, an empty cell the empty
  string), the table after an update, and the table as read with nothing updated.
\<close>

definition sheet_example :: dataframe where
  "sheet_example = table_of 3
     [[PStr ''ID'', PStr ''26/11'', PStr []],
      [PFloat 4186054, PStr ''--'', PStr ''--'']]"

definition updated_example :: dataframe where
  "updated_example = table_of 3
     [[PStr ''ID'', PStr ''26/11'', PNaN],
      [PFloat 4186054, PStr ''Y'', PInt 165]]"

definition unchanged_example :: dataframe where
  "unchanged_example = table_of 3
     [[PStr ''ID'', PStr ''26/11'', PNaN],
      [PFloat 4186054, PStr ''--'', PStr ''--'']]"

text \<open>
  A roster with two students and a row of totals, its date columns, and one form
  record; a roster whose two date labels stand in adjacent columns, and two records.
\<close>

definition roster_example :: dataframe where
  "roster_example = table_of 3
     [[PStr ''Course'', PNaN, PNaN],
      [PNaN, PNaN, PNaN],
      [PNaN, PNaN, PNaN],
      [PStr ''ID'', PStr ''26/11'', PNaN],
      [PNaN, PStr ''Code'', PStr ''Minutes''],
      [PInt 4186054, PStr ''--'', PStr ''--''],
      [PInt 123, PStr ''--'', PStr ''--''],
      [PStr ''Total'', PNaN, PNaN]]"

definition dc_example :: date_columns where
  "dc_example = [''26/11'' \<mapsto> (1, 2)]"

definition forms_example :: "form_record list" where
  "forms_example =
     [\<lparr>fr_student_id = ''4186054'', fr_date = ''26/11'', fr_completion_time = nov26 13 15 0 0\<rparr>]"

definition overlap_example :: dataframe where
  "overlap_example = table_of 4
     [[PStr ''Course'', PNaN, PNaN, PNaN],
      [PNaN, PNaN, PNaN, PNaN],
      [PNaN, PNaN, PNaN, PNaN],
      [PStr ''ID'', PStr ''26/11'', PStr ''27/11'', PNaN],
      [PNaN, PStr ''Code'', PStr ''Code'', PNaN],
      [PInt 4186054, PStr ''--'', PStr ''--'', PNaN]]"

definition overlap_forms :: "form_record list" where
  "overlap_forms =
     [\<lparr>fr_student_id = ''4186054'', fr_date = ''27/11'', fr_completion_time = nov26 13 0 0 0\<rparr>,
      \<lparr>fr_student_id = ''4186054'', fr_date = ''26/11'', fr_completion_time = nov26 13 0 0 0\<rparr>]"




section \<open>Predicates of the proofs\<close>

text \<open>The column \<open>c\<close> is the last one of the row \<open>xs\<close> that holds the date label.\<close>

definition last_label_at :: "pyval list \<Rightarrow> string \<Rightarrow> nat \<Rightarrow> bool" where
  "last_label_at xs label c \<longleftrightarrow>
     c < length xs \<and> xs ! c = PStr label \<and> CHR ''/'' \<in> set label \<and>
     (\<forall>c'. c < c' \<and> c' < length xs \<longrightarrow> xs ! c' \<noteq> PStr label)"


text \<open>
  Between two states of the table: the shape is the same and no cell has come to hold the
  sentinel. A column that is done: readable, and free of the sentinel, on every roster
  row.
\<close>

definition no_new_sentinel :: "dataframe \<Rightarrow> dataframe \<Rightarrow> bool" where
  "no_new_sentinel df df' \<longleftrightarrow>
     nrows df' = nrows df \<and> ncols df' = ncols df \<and>
     (\<forall>r c. cells df' r c = PStr ''--'' \<longrightarrow> cells df r c = PStr ''--'')"

definition col_done :: "dataframe \<Rightarrow> nat \<Rightarrow> bool" where
  "col_done df c \<longleftrightarrow>
     (\<forall>r. 5 \<le> r \<and> r < nrows df \<longrightarrow> c < ncols df \<and> cells df r c \<noteq> PStr ''--'')"

text \<open>
  The date columns are separate: no code column is a minutes column, and two entries
  share both columns or none. Then the code and minutes cells of an entry are written
  together only, and hold what the template held or what one write left there.
\<close>

definition separate_columns :: "date_columns \<Rightarrow> bool" where
  "separate_columns dc \<longleftrightarrow>
     (\<forall>l l' c m c' m'. dc l = Some (c, m) \<and> dc l' = Some (c', m') \<longrightarrow>
        c \<noteq> m' \<and> (c = c' \<longleftrightarrow> m = m'))"

definition cell_pair_ok :: "dataframe \<Rightarrow> dataframe \<Rightarrow> nat \<Rightarrow> nat \<Rightarrow> nat \<Rightarrow> bool" where
  "cell_pair_ok df0 df r c m \<longleftrightarrow>
     (cells df r c = cells df0 r c \<and> cells df r m = cells df0 r m) \<or>
     (\<exists>k. cells df r c = PStr ''Y'' \<and> cells df r m = PInt k) \<or>
     (cells df r c = PStr ''N'' \<and> cells df r m = PInt 0)"

definition pairs_ok :: "date_columns \<Rightarrow> dataframe \<Rightarrow> dataframe \<Rightarrow> bool" where
  "pairs_ok dc df0 df \<longleftrightarrow> (\<forall>l c m r. dc l = Some (c, m) \<longrightarrow> cell_pair_ok df0 df r c m)"

section \<open>Integers in strings\<close>

lemma is_digit_not_space: "is_digit c \<Longrightarrow> \<not> is_space c"
  by (auto simp: is_digit_def is_space_def)

lemma digit_group_all: "list_all is_digit s \<Longrightarrow> s \<noteq> [] \<Longrightarrow> digit_group s"
  by (induction s rule: digit_group.induct) (auto simp: is_digit_def)

lemma dropWhile_space_digits: "list_all is_digit s \<Longrightarrow> dropWhile is_space s = s"
  by (cases s) (auto simp: is_digit_not_space)

lemma strip_digits: "list_all is_digit s \<Longrightarrow> strip s = s"
proof -
  assume a: "list_all is_digit s"
  then have "list_all is_digit (rev s)" by (simp add: list_all_iff)
  then show ?thesis using a by (simp add: strip_def dropWhile_space_digits)
qed

lemma filter_underscore_digits: "list_all is_digit s \<Longrightarrow> filter (\<lambda>c. c \<noteq> CHR ''_'') s = s"
  by (induction s) (auto simp: is_digit_def)

lemma py_int_str_digits: "isdigit s \<Longrightarrow> py_int_str s = Inr (int (digits_val s))"
  apply (cases s)
   apply (auto simp: isdigit_def py_int_str_def strip_digits Let_def digit_group_all
      filter_underscore_digits simp del: digit_group.simps)
   apply (auto simp: is_digit_def)
  done

lemma strip_snoc_space: "is_space w \<Longrightarrow> strip (s @ [w]) = strip s"
proof (cases "list_all is_space s")
  case True
  assume "is_space w"
  with True have "dropWhile is_space (s @ [w]) = []" "dropWhile is_space s = []"
    by (simp_all only: dropWhile_eq_Nil_conv) (auto simp: list_all_iff)
  then show ?thesis by (simp only: strip_def)
next
  case False
  assume "is_space w"
  with False have "dropWhile is_space (s @ [w]) = dropWhile is_space s @ [w]"
    by (auto simp: list_all_iff intro: dropWhile_append1)
  with \<open>is_space w\<close> show ?thesis by (simp add: strip_def)
qed

lemma py_int_str_snoc_space: "is_space w \<Longrightarrow> py_int_str (s @ [w]) = py_int_str s"
  by (simp add: py_int_str_def strip_snoc_space)

lemma split_on_nonempty: "split_on c s \<noteq> []"
  by (induction s) (auto split: list.splits)

lemma split_on_snoc:
  "x \<noteq> c \<Longrightarrow> split_on c (s @ [x]) = butlast (split_on c s) @ [last (split_on c s) @ [x]]"
  by (induction s) (auto simp: split_on_nonempty split: list.splits)

section \<open>The start time\<close>

lemma hour_digits_val: "hour_digits h \<Longrightarrow> isdigit h \<and> digits_val h \<le> 23"
  by (auto simp: hour_digits_def isdigit_def is_digit_def digits_val_def digit_val_def
      split: list.splits)

lemma minute_digits_val: "minute_digits m \<Longrightarrow> isdigit m \<and> digits_val m \<le> 59"
  by (auto simp: minute_digits_def isdigit_def is_digit_def digits_val_def digit_val_def
      split: list.splits)

lemma match_hh_mm_parse:
  assumes "match_hh_mm s"
  shows "\<exists>h m. split_on (CHR '':'') s = [h, m] \<and> hour_digits h \<and> minute_digits m"
  using assms by (auto simp: match_hh_mm_def split: list.splits)

text \<open>Every start time the argument check accepts parses, to an hour and a minute in range.\<close>

lemma parse_start_time_valid:
  assumes "valid_start_time s"
  shows "\<exists>h m. parse_start_time s = Inr (h, m) \<and> 0 \<le> h \<and> h \<le> 23 \<and> 0 \<le> m \<and> m \<le> 59"
proof -
  have LF: "is_space (CHR 0x0A)" by (simp add: is_space_def)
  from assms consider (plain) "match_hh_mm s"
    | (nl) "s \<noteq> []" "last s = CHR 0x0A" "match_hh_mm (butlast s)"
    by (auto simp: valid_start_time_def)
  then show ?thesis
  proof cases
    case plain
    then obtain h m where sp: "split_on (CHR '':'') s = [h, m]"
      and hd: "hour_digits h" and md: "minute_digits m"
      using match_hh_mm_parse by blast
    from hd md show ?thesis
      using hour_digits_val [of h] minute_digits_val [of m]
      by (simp add: parse_start_time_def sp py_int_str_digits)
  next
    case nl
    then obtain h m where sp: "split_on (CHR '':'') (butlast s) = [h, m]"
      and hd: "hour_digits h" and md: "minute_digits m"
      using match_hh_mm_parse by blast
    from nl have s: "s = butlast s @ [CHR 0x0A]" by (metis append_butlast_last_id)
    have "split_on (CHR '':'') s = [h, m @ [CHR 0x0A]]"
      by (subst s) (simp add: split_on_snoc sp)
    with hd md show ?thesis
      using hour_digits_val [of h] minute_digits_val [of m]
      by (simp add: parse_start_time_def py_int_str_digits py_int_str_snoc_space LF)
  qed
qed

lemma class_start_valid:
  assumes "valid_start_time s"
  shows "\<exists>h m. h \<le> 23 \<and> m \<le> 59 \<and> parse_start_time s = Inr (int h, int m) \<and>
           class_start t s = Inr (t\<lparr>hour := h, minute := m, second := 0, microsecond := 0\<rparr>)"
proof -
  from parse_start_time_valid [OF assms] obtain h m where
    p: "parse_start_time s = Inr (h, m)" and b: "0 \<le> h" "h \<le> 23" "0 \<le> m" "m \<le> 59"
    by blast
  have "class_start t s = Inr (t\<lparr>hour := nat h, minute := nat m, second := 0, microsecond := 0\<rparr>)"
    using p b by (simp add: class_start_def replace_time_def)
  moreover have "parse_start_time s = Inr (int (nat h), int (nat m))" using p b by simp
  moreover have "nat h \<le> 23" "nat m \<le> 59" using b by simp_all
  ultimately show ?thesis by blast
qed

section \<open>Instants\<close>

lemma days_before_year_le:
  assumes "y \<le> 9998"
  shows "days_before_year y \<le> 3651428"
proof -
  have a: "(y - 1) * 365 \<le> 9997 * 365" using assms by simp
  have b: "(y - 1) div 4 \<le> 2499" using assms by simp
  have c: "(y - 1) div 400 \<le> 24" using assms by simp
  show ?thesis unfolding days_before_year_def using a b c by linarith
qed

lemma toordinal_bounds:
  assumes "valid_datetime t"
  shows "1 \<le> toordinal t \<and> toordinal t \<le> 3652059"
proof -
  have d31: "day t \<le> 31" "1 \<le> day t"
    using assms by (auto simp: valid_datetime_def days_in_month_def split: if_splits)
  have m: "1 \<le> month t" "month t \<le> 12" using assms by (auto simp: valid_datetime_def)
  then have "month t = 1 \<or> month t = 2 \<or> month t = 3 \<or> month t = 4 \<or> month t = 5
      \<or> month t = 6 \<or> month t = 7 \<or> month t = 8 \<or> month t = 9 \<or> month t = 10
      \<or> month t = 11 \<or> month t = 12"
    by presburger
  then have ms: "month t \<in> {1, 2, 3, 4, 5, 6, 7, 8, 9, 10, 11, 12}" by blast
  then have dbm: "days_before_month (year t) (month t) \<le> 335"
    by (auto simp: days_before_month_def)
  show ?thesis
  proof (cases "year t = 9999")
    case True
    have "\<not> is_leap 9999" by (simp add: is_leap_def)
    with True ms have "days_before_month (year t) (month t) \<le> 334"
      by (auto simp: days_before_month_def)
    moreover have "days_before_year 9999 = 3651694" by (simp add: days_before_year_def)
    ultimately show ?thesis using d31 True by (simp add: toordinal_def)
  next
    case False
    with assms have "year t \<le> 9998" by (simp add: valid_datetime_def)
    from days_before_year_le [OF this] dbm d31 show ?thesis by (simp add: toordinal_def)
  qed
qed

lemma instant_bounds:
  assumes "valid_datetime t"
  shows "min_instant \<le> instant t \<and> instant t \<le> max_instant"
proof -
  from toordinal_bounds [OF assms]
  have o: "1 \<le> int (toordinal t)" "int (toordinal t) \<le> 3652059" by simp_all
  from assms have f: "int (hour t) \<le> 23" "int (minute t) \<le> 59" "int (second t) \<le> 59"
    "int (microsecond t) \<le> 999999"
    by (simp_all add: valid_datetime_def)
  show ?thesis using o f by (simp add: instant_def min_instant_def max_instant_def)
qed

lemma valid_replace:
  "valid_datetime t \<Longrightarrow> h \<le> 23 \<Longrightarrow> m \<le> 59 \<Longrightarrow>
     valid_datetime (t\<lparr>hour := h, minute := m, second := 0, microsecond := 0\<rparr>)"
  by (simp add: valid_datetime_def)

lemma class_start_valid_datetime:
  assumes "valid_datetime t" "valid_start_time s"
  shows "\<exists>cs. class_start t s = Inr cs \<and> valid_datetime cs"
  using class_start_valid [OF assms(2), of t] valid_replace [OF assms(1)] by auto

lemma add_minutes_ok:
  assumes "valid_datetime cs" "0 < d" "instant cs + d * 60000000 \<le> max_instant"
  shows "add_minutes cs d = Inr (instant cs + d * 60000000)"
proof -
  from instant_bounds [OF assms(1)] have lo: "min_instant \<le> instant cs" by simp
  have "0 < min_instant" by (simp add: min_instant_def)
  with lo have "0 < instant cs" by simp
  with assms(3) have "d * 60000000 \<le> max_instant" by simp
  then have "d \<le> 5258966399" by (simp add: max_instant_def)
  then have "d div 1440 \<le> 999999999" by simp
  moreover have "0 \<le> d div 1440" using assms(2) by simp
  ultimately show ?thesis using lo assms by (simp add: add_minutes_def Let_def)
qed

lemma add_minutes_overflow:
  assumes "0 < d" "max_instant < instant cs + d * 60000000"
  shows "add_minutes cs d = Inl OverflowError"
  using assms by (simp add: add_minutes_def Let_def)

lemma py_trunc_minutes:
  "0 \<le> u \<Longrightarrow> py_trunc ((of_int u / 1000000) / 60) = u div 60000000"
proof -
  assume u: "0 \<le> u"
  have "(of_int u / 1000000) / 60 = (of_int u / of_int 60000000 :: real)" by simp
  moreover have "\<lfloor>(of_int u / of_int 60000000 :: real)\<rfloor> = u div 60000000"
    by (rule floor_divide_of_int_eq)
  moreover have "(0::real) \<le> (of_int u / 1000000) / 60" using u by simp
  ultimately show ?thesis by (simp add: py_trunc_def)
qed

lemmas eval_defs =
  calculate_attendance_def class_start_def class_end_def parse_start_time_def py_int_str_def
  strip_def is_space_def replace_time_def add_minutes_def instant_def toordinal_def
  days_before_year_def days_before_month_def is_leap_def py_trunc_def Let_def digits_val_def
  digit_val_def is_digit_def min_instant_def max_instant_def valid_datetime_def days_in_month_def
  valid_start_time_def match_hh_mm_def hour_digits_def minute_digits_def nov26_def

section \<open>The attendance calculator: on time, late, absent\<close>

text \<open>
  Claim C1, as amended. For every completion timestamp \<open>t\<close>, every start time \<open>s\<close> that
  the argument check accepts and every duration \<open>d > 0\<close>, the class start is \<open>t\<close> with
  the hour and minute of \<open>s\<close> and the seconds zeroed. If \<open>t\<close> is at or before the class
  start, and the class start plus \<open>d\<close> minutes is still a timestamp Python can represent
  (at most 9999-12-31 23:59:59.999999), the result is \<open>('Y', d)\<close>. If \<open>t\<close> is at or after
  the class start plus \<open>d\<close> minutes, the result is \<open>('N', 0)\<close>.
\<close>

theorem calculate_attendance_early_or_late:
  assumes "valid_datetime t" and "valid_start_time s" and "0 < d"
  shows "\<exists>h m. parse_start_time s = Inr (int h, int m) \<and>
           class_start t s = Inr (t\<lparr>hour := h, minute := m, second := 0, microsecond := 0\<rparr>) \<and>
           (\<forall>cs. cs = t\<lparr>hour := h, minute := m, second := 0, microsecond := 0\<rparr> \<longrightarrow>
              (instant t \<le> instant cs \<and> instant cs + d * 60000000 \<le> max_instant \<longrightarrow>
                 calculate_attendance t s d = Inr (''Y'', d)) \<and>
              (instant cs + d * 60000000 \<le> instant t \<longrightarrow>
                 calculate_attendance t s d = Inr (''N'', 0)))"
proof -
  from class_start_valid [OF assms(2), of t] obtain h m where
    hm: "h \<le> 23" "m \<le> 59" and p: "parse_start_time s = Inr (int h, int m)"
    and cs: "class_start t s = Inr (t\<lparr>hour := h, minute := m, second := 0, microsecond := 0\<rparr>)"
    by blast
  let ?cs = "t\<lparr>hour := h, minute := m, second := 0, microsecond := 0\<rparr>"
  have v: "valid_datetime ?cs" using valid_replace [OF assms(1) hm] .
  have early: "calculate_attendance t s d = Inr (''Y'', d)"
    if "instant t \<le> instant ?cs" "instant ?cs + d * 60000000 \<le> max_instant"
    using that cs add_minutes_ok [OF v assms(3) that(2)]
    by (simp add: calculate_attendance_def)
  have late: "calculate_attendance t s d = Inr (''N'', 0)"
    if "instant ?cs + d * 60000000 \<le> instant t"
  proof -
    from instant_bounds [OF assms(1)] that
    have "instant ?cs + d * 60000000 \<le> max_instant" by simp
    from add_minutes_ok [OF v assms(3) this] that assms(3) cs show ?thesis
      by (simp add: calculate_attendance_def)
  qed
  from p cs early late show ?thesis by blast
qed

theorem calculate_attendance_early_or_late_witness:
  "valid_datetime (nov26 12 59 59 0) \<and> valid_datetime (nov26 16 0 0 0) \<and>
   valid_start_time ''13:00'' \<and> (0::int) < 180 \<and>
   calculate_attendance (nov26 12 59 59 0) ''13:00'' 180 = Inr (''Y'', 180) \<and>
   calculate_attendance (nov26 16 0 0 0) ''13:00'' 180 = Inr (''N'', 0)"
  using calculate_attendance_early_or_late [of "nov26 12 59 59 0" "''13:00''" 180]
    calculate_attendance_early_or_late [of "nov26 16 0 0 0" "''13:00''" 180]
  by (simp add: eval_defs)

text \<open>
  The claim as stated fails for a duration that carries the class end past the year
  9999: at 12:00 with the class starting at 13:00 and lasting 10000000000 minutes, the
  timestamp is before the class start, and the addition that computes the class end
  raises \<^verbatim>\<open>OverflowError\<close> before the comparison is reached.
\<close>

theorem calculate_attendance_early_overflow:
  "valid_datetime (nov26 12 0 0 0) \<and> valid_start_time ''13:00'' \<and> (0::int) < 10000000000 \<and>
   class_start (nov26 12 0 0 0) ''13:00'' = Inr (nov26 13 0 0 0) \<and>
   instant (nov26 12 0 0 0) \<le> instant (nov26 13 0 0 0) \<and>
   calculate_attendance (nov26 12 0 0 0) ''13:00'' 10000000000 = Inl OverflowError"
  by (simp add: eval_defs)

section \<open>The attendance calculator: during the class\<close>



section \<open>The attendance calculator: the range of the result\<close>

text \<open>
  Claim C9, as amended. For every completion timestamp, accepted start time and
  duration \<open>d > 0\<close>: when the class start plus \<open>d\<close> minutes is a timestamp Python can
  represent, \<^verbatim>\<open>calculate_attendance\<close> returns a code \<open>Y\<close> or \<open>N\<close> and minutes between 0
  and \<open>d\<close>, the code is \<open>N\<close> exactly when the minutes are 0, and strictly between the
  class start and the class end the code is \<open>Y\<close> with at least one minute; otherwise it
  raises \<^verbatim>\<open>OverflowError\<close>.
\<close>

theorem calculate_attendance_range:
  assumes "valid_datetime t" and "valid_start_time s" and "0 < d"
  shows "\<exists>cs. class_start t s = Inr cs \<and>
           (if instant cs + d * 60000000 \<le> max_instant
            then \<exists>c m. calculate_attendance t s d = Inr (c, m) \<and> 0 \<le> m \<and> m \<le> d \<and>
                   (c = ''Y'' \<or> c = ''N'') \<and> (c = ''N'' \<longleftrightarrow> m = 0) \<and>
                   (instant cs < instant t \<and> instant t < instant cs + d * 60000000
                      \<longrightarrow> c = ''Y'' \<and> 1 \<le> m)
            else calculate_attendance t s d = Inl OverflowError)"
proof -
  from class_start_valid_datetime [OF assms(1,2)] obtain cs where
    cs: "class_start t s = Inr cs" and v: "valid_datetime cs" by blast
  let ?ce = "instant cs + d * 60000000"
  let ?u = "instant t - instant cs"
  show ?thesis
  proof (cases "?ce \<le> max_instant")
    case False
    then have "add_minutes cs d = Inl OverflowError"
      using add_minutes_overflow [OF assms(3), of cs] by simp
    with cs False show ?thesis by (simp add: calculate_attendance_def)
  next
    case True
    note am = add_minutes_ok [OF v assms(3) True]
    consider (early) "instant t \<le> instant cs"
      | (late) "instant cs < instant t" "?ce \<le> instant t"
      | (between) "instant cs < instant t" "instant t < ?ce" by linarith
    then have "\<exists>c m. calculate_attendance t s d = Inr (c, m) \<and> 0 \<le> m \<and> m \<le> d \<and>
                   (c = ''Y'' \<or> c = ''N'') \<and> (c = ''N'' \<longleftrightarrow> m = 0) \<and>
                   (instant cs < instant t \<and> instant t < ?ce \<longrightarrow> c = ''Y'' \<and> 1 \<le> m)"
    proof cases
      case early
      then show ?thesis using cs am assms(3) by (simp add: calculate_attendance_def)
    next
      case late
      then show ?thesis using cs am assms(3) by (simp add: calculate_attendance_def)
    next
      case between
      have tr: "py_trunc ((of_int ?u / 1000000) / 60) = ?u div 60000000"
        using between by (intro py_trunc_minutes) simp
      have "0 \<le> ?u div 60000000" using between by simp
      moreover have "?u div 60000000 < d" using between by (simp add: div_less_iff_less_mult)
      ultimately show ?thesis using cs am between tr
        by (simp add: calculate_attendance_def Let_def)
    qed
    with cs True show ?thesis by simp
  qed
qed

theorem calculate_attendance_range_witness:
  "valid_datetime (nov26 15 59 59 999999) \<and> valid_start_time ''13:00'' \<and> (0::int) < 180 \<and>
   calculate_attendance (nov26 15 59 59 999999) ''13:00'' 180 = Inr (''Y'', 1)"
  using calculate_attendance_range [of "nov26 15 59 59 999999" "''13:00''" 180]
  by (simp add: eval_defs)

text \<open>
  The claim as stated fails where the class end cannot be represented: at 13:15 with the
  class starting at 13:00 and lasting 10000000000 minutes, no code and no minutes are
  returned.
\<close>

theorem calculate_attendance_range_overflow:
  "valid_datetime (nov26 13 15 0 0) \<and> valid_start_time ''13:00'' \<and> (0::int) < 10000000000 \<and>
   calculate_attendance (nov26 13 15 0 0) ''13:00'' 10000000000 = Inl OverflowError"
  by (simp add: eval_defs)

section \<open>The identifier normalizer\<close>















section \<open>The roster indexer: the date columns\<close>

lemma scan_date_row_append:
  "scan_date_row (ps @ qs) dc = scan_date_row qs (scan_date_row ps dc)"
  by (induction ps arbitrary: dc) auto



lemma last_label_at_snoc_hit:
  assumes "x = PStr label" "CHR ''/'' \<in> set label"
  shows "last_label_at (xs @ [x]) label c \<longleftrightarrow> c = length xs"
proof
  assume a: "last_label_at (xs @ [x]) label c"
  show "c = length xs"
  proof (rule ccontr)
    assume "c \<noteq> length xs"
    with a have c: "c < length xs" by (simp add: last_label_at_def)
    from a have al: "\<And>c'. c < c' \<Longrightarrow> c' < length (xs @ [x]) \<Longrightarrow> (xs @ [x]) ! c' \<noteq> PStr label"
      by (simp add: last_label_at_def)
    from al [of "length xs"] c have "(xs @ [x]) ! length xs \<noteq> PStr label" by simp
    with assms show False by simp
  qed
next
  assume "c = length xs"
  with assms show "last_label_at (xs @ [x]) label c" by (auto simp: last_label_at_def)
qed

lemma last_label_at_snoc_miss:
  assumes "\<not> (x = PStr label \<and> CHR ''/'' \<in> set label)"
  shows "last_label_at (xs @ [x]) label c \<longleftrightarrow> last_label_at xs label c"
proof
  assume a: "last_label_at (xs @ [x]) label c"
  then have sl: "CHR ''/'' \<in> set label" by (simp add: last_label_at_def)
  with assms have nx: "x \<noteq> PStr label" by simp
  from a have "c < Suc (length xs)" "(xs @ [x]) ! c = PStr label" by (simp_all add: last_label_at_def)
  with nx have c: "c < length xs" by (cases "c = length xs") auto
  with a have "xs ! c = PStr label" by (simp add: last_label_at_def nth_append)
  moreover have "xs ! c' \<noteq> PStr label" if "c < c'" "c' < length xs" for c'
  proof -
    from a have al: "\<And>c'. c < c' \<Longrightarrow> c' < length (xs @ [x]) \<Longrightarrow> (xs @ [x]) ! c' \<noteq> PStr label"
      by (simp add: last_label_at_def)
    from al [of c'] that have "(xs @ [x]) ! c' \<noteq> PStr label" by simp
    with that show ?thesis by (simp add: nth_append)
  qed
  ultimately show "last_label_at xs label c" using c sl by (simp add: last_label_at_def)
next
  assume a: "last_label_at xs label c"
  then have sl: "CHR ''/'' \<in> set label" and c: "c < length xs" and h: "xs ! c = PStr label"
    by (simp_all add: last_label_at_def)
  with assms have nx: "x \<noteq> PStr label" by simp
  have "(xs @ [x]) ! c' \<noteq> PStr label" if "c < c'" "c' < length (xs @ [x])" for c'
  proof (cases "c' < length xs")
    case True
    from a have al: "\<And>c'. c < c' \<Longrightarrow> c' < length xs \<Longrightarrow> xs ! c' \<noteq> PStr label"
      by (simp add: last_label_at_def)
    from al [of c'] True that show ?thesis by (simp add: nth_append)
  next
    case False
    with that have "c' = length xs" by simp
    with nx show ?thesis by simp
  qed
  then show "last_label_at (xs @ [x]) label c" using c h sl
    by (simp add: last_label_at_def nth_append)
qed

lemma scan_date_row_enumerate:
  "scan_date_row (List.enumerate 0 xs) Map.empty label = Some (c, mc) \<longleftrightarrow>
     last_label_at xs label c \<and> mc = c + 1"
proof (induction xs arbitrary: c mc rule: rev_induct)
  case Nil
  then show ?case by (simp add: last_label_at_def)
next
  case (snoc x xs)
  have en: "List.enumerate 0 (xs @ [x]) = List.enumerate 0 xs @ [(length xs, x)]"
    by (simp add: enumerate_append_eq)
  show ?case
  proof (cases "x = PStr label \<and> CHR ''/'' \<in> set label")
    case True
    then have "scan_date_row (List.enumerate 0 (xs @ [x])) Map.empty label
                 = Some (length xs, length xs + 1)"
      unfolding en scan_date_row_append by simp
    moreover from True have "last_label_at (xs @ [x]) label c \<longleftrightarrow> c = length xs"
      by (intro last_label_at_snoc_hit) simp_all
    ultimately show ?thesis by auto
  next
    case False
    then have "scan_date_row (List.enumerate 0 (xs @ [x])) Map.empty label
                 = scan_date_row (List.enumerate 0 xs) Map.empty label"
      unfolding en scan_date_row_append by (auto split: pyval.splits)
    moreover note last_label_at_snoc_miss [OF False, of xs c]
    ultimately show ?thesis using snoc.IH [of c mc] by simp
  qed
qed

text \<open>
  Claim C5. On a table that has the header rows 3 and 4, the roster indexer returns the
  table and a map whose entries are exactly these: a label is mapped to \<open>(c, mc)\<close> when
  and only when the cell of row 3 at column \<open>c\<close> is a string holding that label, the
  label contains a slash, no column to the right of \<open>c\<close> holds the same label (the last
  occurrence wins), and \<open>mc = c + 1\<close>.
\<close>

theorem read_template_file_date_columns:
  assumes "5 \<le> nrows df"
  shows "\<exists>dc. read_template_file df = Inr (df, dc) \<and>
     (\<forall>label c mc. dc label = Some (c, mc) \<longleftrightarrow>
        c < ncols df \<and> cells df 3 c = PStr label \<and> CHR ''/'' \<in> set label \<and>
        (\<forall>c'. c < c' \<and> c' < ncols df \<longrightarrow> cells df 3 c' \<noteq> PStr label) \<and> mc = c + 1)"
proof -
  let ?row = "map (cells df 3) [0..<ncols df]"
  let ?dc = "scan_date_row (List.enumerate 0 ?row) Map.empty"
  have "read_template_file df = Inr (df, ?dc)"
    using assms by (simp add: read_template_file_def)
  moreover have "?dc label = Some (c, mc) \<longleftrightarrow>
        c < ncols df \<and> cells df 3 c = PStr label \<and> CHR ''/'' \<in> set label \<and>
        (\<forall>c'. c < c' \<and> c' < ncols df \<longrightarrow> cells df 3 c' \<noteq> PStr label) \<and> mc = c + 1" for label c mc
    unfolding scan_date_row_enumerate last_label_at_def by auto
  ultimately show ?thesis by blast
qed



theorem read_template_file_date_columns_witness:
  "5 \<le> nrows header_example \<and>
   (\<exists>dc. read_template_file header_example = Inr (header_example, dc) \<and>
      dc ''26/11'' = Some (3, 4) \<and> dc ''ID'' = None)"
proof -
  have h: "5 \<le> nrows header_example" by (simp add: header_example_def table_of_def)
  from read_template_file_date_columns [OF h] obtain dc where
    r: "read_template_file header_example = Inr (header_example, dc)" and
    dc: "\<And>label c mc. dc label = Some (c, mc) \<longleftrightarrow>
        c < ncols header_example \<and> cells header_example 3 c = PStr label \<and>
        CHR ''/'' \<in> set label \<and>
        (\<forall>c'. c < c' \<and> c' < ncols header_example \<longrightarrow> cells header_example 3 c' \<noteq> PStr label) \<and>
        mc = c + 1"
    by blast
  have n: "ncols header_example = 5" by (simp add: header_example_def table_of_def)
  have c3: "cells header_example 3 3 = PStr ''26/11''"
    by (simp add: header_example_def table_of_def)
  have later: "cells header_example 3 c' \<noteq> PStr ''26/11''" if "3 < c'" "c' < 5" for c'
  proof -
    from that have "c' = 4" by simp
    then show ?thesis by (simp add: header_example_def table_of_def)
  qed
  have "dc ''26/11'' = Some (3, 4)"
    unfolding dc n using c3 later by simp
  moreover have "dc ''ID'' = None"
  proof (cases "dc ''ID''")
    case None
    then show ?thesis .
  next
    case (Some p)
    then have "dc ''ID'' = Some (fst p, snd p)" by simp
    then show ?thesis unfolding dc by simp
  qed
  ultimately show ?thesis using h r by blast
qed

section \<open>The identifier normalizer against its specification\<close>





section \<open>The selective writer\<close>


















lemmas writer_defs = save_updated_template_def save_cell_def xlutils_copy_def ws_write_def
  compare_str_def write_value_def py_str_def isna_def table_of_def Let_def upt_rec
  str_int_def str_nat.simps digit_char_def char_of_eq_iff

lemma save_updated_template_example: "written (save_updated_template fr updated_example sheet_example) = [(1, 1), (1, 2)]"
  by (simp add: writer_defs updated_example_def sheet_example_def)

lemma save_unchanged_example: "written (save_updated_template fr unchanged_example sheet_example) = []"
  by (simp add: writer_defs unchanged_example_def sheet_example_def)



text \<open>
  Equal means equal as Python values, type included. An integer in the updated table
  where the sheet holds the float of the same number differs from it in its text, and is
  written again.
\<close>

lemma save_updated_template_int_for_float:
  "fr 4186054 = ''4186054.0'' \<Longrightarrow>
     written (save_updated_template fr
       (table_of 3 [[PStr ''ID'', PStr ''26/11'', PNaN], [PInt 4186054, PStr ''--'', PStr ''--'']])
       sheet_example) = [(1, 0)]"
  by (simp add: writer_defs sheet_example_def)

section \<open>Reading and writing cells\<close>

lemma no_new_sentinel_refl: "no_new_sentinel df df"
  by (simp add: no_new_sentinel_def)

lemma no_new_sentinel_trans:
  "no_new_sentinel a b \<Longrightarrow> no_new_sentinel b c \<Longrightarrow> no_new_sentinel a c"
  by (simp add: no_new_sentinel_def)

lemma iloc_set_Inr:
  "iloc_set df r c v = Inr df' \<longleftrightarrow>
     r < nrows df \<and> c < ncols df \<and> df' = df\<lparr>cells := (cells df)(r := (cells df r)(c := v))\<rparr>"
  by (auto simp: iloc_set_def)

lemma iloc_get_Inr:
  "iloc_get df r c = Inr v \<longleftrightarrow> r < nrows df \<and> c < ncols df \<and> v = cells df r c"
  by (auto simp: iloc_get_def)

lemma iloc_set_no_new_sentinel:
  "iloc_set df r c v = Inr df' \<Longrightarrow> v \<noteq> PStr ''--'' \<Longrightarrow> no_new_sentinel df df'"
  by (auto simp: iloc_set_Inr no_new_sentinel_def)

lemma col_done_mono:
  "col_done df c \<Longrightarrow> no_new_sentinel df df' \<Longrightarrow> col_done df' c"
  by (auto simp: col_done_def no_new_sentinel_def)

lemma pairs_ok_refl: "pairs_ok dc df df"
  by (simp add: pairs_ok_def cell_pair_ok_def)

lemma calculate_attendance_code:
  "calculate_attendance t s d = Inr (code, k) \<Longrightarrow> code = ''Y'' \<or> (code = ''N'' \<and> k = 0)"
  by (auto simp: calculate_attendance_def Let_def split: sum.splits if_splits)

lemma write_pair_ok:
  assumes s1: "iloc_set df r0 c0 (PStr code) = Inr df1"
    and s2: "iloc_set df1 r0 m0 (PInt k) = Inr df2"
    and e: "dc l0 = Some (c0, m0)"
    and sep: "separate_columns dc"
    and ok: "pairs_ok dc df0 df"
    and code: "code = ''Y'' \<or> (code = ''N'' \<and> k = 0)"
  shows "pairs_ok dc df0 df2"
  unfolding pairs_ok_def
proof (intro allI impI)
  fix l c m r
  assume lc: "dc l = Some (c, m)"
  from s1 s2 have cs: "cells df2 = (cells df)(r0 := (cells df r0)(c0 := PStr code, m0 := PInt k))"
    by (auto simp: iloc_set_Inr)
  from sep e lc have d1: "c \<noteq> m0" "c0 \<noteq> m" "c = c0 \<longleftrightarrow> m = m0"
    unfolding separate_columns_def by blast+
  from sep e have d2: "c0 \<noteq> m0" unfolding separate_columns_def by blast
  from ok lc have old: "cell_pair_ok df0 df r c m" by (simp add: pairs_ok_def)
  show "cell_pair_ok df0 df2 r c m"
  proof (cases "r = r0 \<and> c = c0")
    case True
    with d1 have "m = m0" by simp
    with True d2 code show ?thesis by (auto simp: cell_pair_ok_def cs)
  next
    case False
    with d1 have "cells df2 r c = cells df r c" "cells df2 r m = cells df r m"
      by (auto simp: cs)
    with old show ?thesis by (simp add: cell_pair_ok_def)
  qed
qed

section \<open>The second phase: marking absences\<close>

lemma mark_rows_result:
  "mark_rows cc mc d (df, msgs) rows = Inr (df', msgs') \<Longrightarrow>
     no_new_sentinel df df' \<and>
     (\<forall>r \<in> set rows. r < nrows df \<and> cc < ncols df \<and> cells df' r cc \<noteq> PStr ''--'')"
proof (induction rows arbitrary: df msgs)
  case Nil
  then show ?case by (simp add: no_new_sentinel_refl)
next
  case (Cons r rows)
  from Cons.prems have rd: "r < nrows df" "cc < ncols df"
    by (auto simp: iloc_get_def split: if_splits)
  show ?case
  proof (cases "cells df r cc = PStr ''--''")
    case False
    with Cons.prems rd have rest: "mark_rows cc mc d (df, msgs) rows = Inr (df', msgs')"
      by (simp add: iloc_get_def)
    from Cons.IH [OF rest] have nn: "no_new_sentinel df df'"
      and rs: "\<forall>r \<in> set rows. r < nrows df \<and> cc < ncols df \<and> cells df' r cc \<noteq> PStr ''--''"
      by simp_all
    from nn False have "cells df' r cc \<noteq> PStr ''--''" by (auto simp: no_new_sentinel_def)
    with nn rs rd show ?thesis by simp
  next
    case True
    with Cons.prems rd obtain df1 df2 sid where
      s1: "iloc_set df r cc (PStr ''N'') = Inr df1" and
      s2: "iloc_set df1 r mc (PInt 0) = Inr df2" and
      rest: "mark_rows cc mc d (df2, msgs @ [MarkedAbsent sid d]) rows = Inr (df', msgs')"
      by (auto simp: iloc_get_def split: sum.splits)
    from s1 have n1: "no_new_sentinel df df1" by (rule iloc_set_no_new_sentinel) simp
    from s2 have n2: "no_new_sentinel df1 df2" by (rule iloc_set_no_new_sentinel) simp
    from n1 n2 have n12: "no_new_sentinel df df2" by (rule no_new_sentinel_trans)
    from Cons.IH [OF rest] have nn: "no_new_sentinel df2 df'"
      and rs: "\<forall>r \<in> set rows. r < nrows df2 \<and> cc < ncols df2 \<and> cells df' r cc \<noteq> PStr ''--''"
      by simp_all
    from s1 s2 have "cells df2 r cc \<noteq> PStr ''--''" by (auto simp: iloc_set_Inr)
    with nn have "cells df' r cc \<noteq> PStr ''--''" by (auto simp: no_new_sentinel_def)
    moreover from n12 nn have "no_new_sentinel df df'" by (rule no_new_sentinel_trans)
    moreover from n12 rs have "\<forall>r \<in> set rows. r < nrows df \<and> cc < ncols df \<and> cells df' r cc \<noteq> PStr ''--''"
      by (simp add: no_new_sentinel_def)
    ultimately show ?thesis using rd by simp
  qed
qed

lemma mark_rows_done:
  "\<forall>r \<in> set rows. r < nrows df \<and> cc < ncols df \<and> cells df r cc \<noteq> PStr ''--'' \<Longrightarrow>
     mark_rows cc mc d (df, msgs) rows = Inr (df, msgs)"
  by (induction rows) (auto simp: iloc_get_def)

lemma mark_rows_col_done:
  assumes "mark_rows cc mc d (df, msgs) [5..<nrows df] = Inr (df', msgs')"
  shows "no_new_sentinel df df' \<and> col_done df' cc"
proof -
  from mark_rows_result [OF assms] have nn: "no_new_sentinel df df'"
    and rs: "\<forall>r \<in> set [5..<nrows df]. r < nrows df \<and> cc < ncols df \<and> cells df' r cc \<noteq> PStr ''--''"
    by simp_all
  from nn rs have "col_done df' cc" by (auto simp: col_done_def no_new_sentinel_def)
  with nn show ?thesis by simp
qed

lemma mark_rows_col_done_again:
  assumes "col_done df cc"
  shows "mark_rows cc mc d (df, msgs) [5..<nrows df] = Inr (df, msgs)"
  using assms by (intro mark_rows_done) (auto simp: col_done_def)

lemma mark_absences_result:
  "mark_absences dc (df, msgs) dates = Inr (df', msgs') \<Longrightarrow>
     no_new_sentinel df df' \<and>
     (\<forall>d \<in> set dates. \<forall>cc mc. dc d = Some (cc, mc) \<longrightarrow> col_done df' cc)"
proof (induction dates arbitrary: df msgs)
  case Nil
  then show ?case by (simp add: no_new_sentinel_refl)
next
  case (Cons d dates)
  show ?case
  proof (cases "dc d")
    case None
    with Cons.prems have "mark_absences dc (df, msgs) dates = Inr (df', msgs')" by simp
    from Cons.IH [OF this] None show ?thesis by simp
  next
    case (Some p)
    obtain cc mc where p: "p = (cc, mc)" by (cases p)
    with Some Cons.prems obtain df1 msgs1 where
      m: "mark_rows cc mc d (df, msgs) [5..<nrows df] = Inr (df1, msgs1)" and
      rest: "mark_absences dc (df1, msgs1) dates = Inr (df', msgs')"
      by (auto split: sum.splits)
    from mark_rows_col_done [OF m] have n1: "no_new_sentinel df df1" and c1: "col_done df1 cc"
      by simp_all
    from Cons.IH [OF rest] have n2: "no_new_sentinel df1 df'"
      and cs: "\<forall>d \<in> set dates. \<forall>cc mc. dc d = Some (cc, mc) \<longrightarrow> col_done df' cc"
      by simp_all
    from c1 n2 have "col_done df' cc" by (rule col_done_mono)
    moreover from n1 n2 have "no_new_sentinel df df'" by (rule no_new_sentinel_trans)
    ultimately show ?thesis using cs Some p by simp
  qed
qed

lemma mark_absences_done:
  "\<forall>d \<in> set dates. \<forall>cc mc. dc d = Some (cc, mc) \<longrightarrow> col_done df cc \<Longrightarrow>
     mark_absences dc (df, msgs) dates = Inr (df, msgs)"
  by (induction dates) (auto simp: mark_rows_col_done_again split: option.splits)

lemma mark_rows_pairs_ok:
  "mark_rows cc mc d (df, msgs) rows = Inr (df', msgs') \<Longrightarrow> dc l0 = Some (cc, mc) \<Longrightarrow>
     separate_columns dc \<Longrightarrow> pairs_ok dc df0 df \<Longrightarrow> pairs_ok dc df0 df'"
proof (induction rows arbitrary: df msgs)
  case Nil
  then show ?case by simp
next
  case (Cons r rows)
  from Cons.prems(1) have rd: "r < nrows df" "cc < ncols df"
    by (auto simp: iloc_get_def split: if_splits)
  show ?case
  proof (cases "cells df r cc = PStr ''--''")
    case False
    with Cons.prems(1) rd have "mark_rows cc mc d (df, msgs) rows = Inr (df', msgs')"
      by (simp add: iloc_get_def)
    from Cons.IH [OF this Cons.prems(2,3,4)] show ?thesis .
  next
    case True
    with Cons.prems(1) rd obtain df1 df2 sid where
      s1: "iloc_set df r cc (PStr ''N'') = Inr df1" and
      s2: "iloc_set df1 r mc (PInt 0) = Inr df2" and
      rest: "mark_rows cc mc d (df2, msgs @ [MarkedAbsent sid d]) rows = Inr (df', msgs')"
      by (auto simp: iloc_get_def split: sum.splits)
    have "pairs_ok dc df0 df2"
      using write_pair_ok [OF s1 s2 Cons.prems(2,3,4)] by simp
    from Cons.IH [OF rest Cons.prems(2,3) this] show ?thesis .
  qed
qed

lemma mark_absences_pairs_ok:
  "mark_absences dc (df, msgs) dates = Inr (df', msgs') \<Longrightarrow>
     separate_columns dc \<Longrightarrow> pairs_ok dc df0 df \<Longrightarrow> pairs_ok dc df0 df'"
proof (induction dates arbitrary: df msgs)
  case Nil
  then show ?case by simp
next
  case (Cons d dates)
  show ?case
  proof (cases "dc d")
    case None
    with Cons.prems(1) have "mark_absences dc (df, msgs) dates = Inr (df', msgs')" by simp
    from Cons.IH [OF this Cons.prems(2,3)] show ?thesis .
  next
    case (Some p)
    obtain cc mc where p: "p = (cc, mc)" by (cases p)
    with Some Cons.prems(1) obtain df1 msgs1 where
      m: "mark_rows cc mc d (df, msgs) [5..<nrows df] = Inr (df1, msgs1)" and
      rest: "mark_absences dc (df1, msgs1) dates = Inr (df', msgs')"
      by (auto split: sum.splits)
    from Some p have e: "dc d = Some (cc, mc)" by simp
    from mark_rows_pairs_ok [OF m e Cons.prems(2,3)] have "pairs_ok dc df0 df1" .
    from Cons.IH [OF rest Cons.prems(2) this] show ?thesis .
  qed
qed

lemma roster_example_cells: "nrows roster_example = 8" "ncols roster_example = 3"
  "cells roster_example 5 0 = PInt 4186054" "cells roster_example 5 1 = PStr ''--''"
  "cells roster_example 6 0 = PInt 123" "cells roster_example 6 1 = PStr ''--''"
  "cells roster_example 7 0 = PStr ''Total''" "cells roster_example 7 1 = PNaN"
  by (simp_all add: roster_example_def table_of_def)

lemma mark_absences_example: "mark_absences dc_example (roster_example, []) [''26/11''] =
   Inr (roster_example\<lparr>cells := (cells roster_example)
           (5 := (cells roster_example 5)(1 := PStr ''N'', 2 := PInt 0),
            6 := (cells roster_example 6)(1 := PStr ''N'', 2 := PInt 0))\<rparr>,
        [MarkedAbsent (PInt 4186054) ''26/11'', MarkedAbsent (PInt 123) ''26/11''])"
  by (simp add: dc_example_def roster_example_cells [simplified] upt_rec iloc_get_def iloc_set_def)

text \<open>
  Claim C8. The second phase is idempotent: running it again on the table and the
  messages it returned returns them unchanged, and a run that raises does so the first
  time; after one run, no roster row holds the sentinel in the code column of a date
  that was processed.
\<close>

theorem mark_absences_idempotent:
  "(case mark_absences dc st dates of
      Inl e \<Rightarrow> Inl e
    | Inr st' \<Rightarrow> mark_absences dc st' dates) = mark_absences dc st dates \<and>
   (\<forall>df' msgs'. mark_absences dc st dates = Inr (df', msgs') \<longrightarrow>
      (\<forall>msgs''. mark_absences dc (df', msgs'') dates = Inr (df', msgs'')) \<and>
      (\<forall>d cc mc r. d \<in> set dates \<and> dc d = Some (cc, mc) \<and> 5 \<le> r \<and> r < nrows df'
         \<longrightarrow> cells df' r cc \<noteq> PStr ''--''))"
proof -
  obtain df msgs where st: "st = (df, msgs)" by (cases st)
  have again: "mark_absences dc (df', msgs'') dates = Inr (df', msgs'')"
    if "mark_absences dc st dates = Inr (df', msgs')" for df' msgs' msgs''
    using mark_absences_result [OF that [unfolded st]] by (intro mark_absences_done) simp
  have clean: "cells df' r cc \<noteq> PStr ''--''"
    if "mark_absences dc st dates = Inr (df', msgs')" "d \<in> set dates" "dc d = Some (cc, mc)"
      "5 \<le> r" "r < nrows df'" for df' msgs' d cc mc r
  proof -
    from mark_absences_result [OF that(1) [unfolded st]] that(2,3) have "col_done df' cc"
      by blast
    with that(4,5) show ?thesis by (simp add: col_done_def)
  qed
  have "(case mark_absences dc st dates of
      Inl e \<Rightarrow> Inl e
    | Inr st' \<Rightarrow> mark_absences dc st' dates) = mark_absences dc st dates"
  proof (cases "mark_absences dc st dates")
    case (Inl e)
    then show ?thesis by simp
  next
    case (Inr st')
    obtain df' msgs' where st': "st' = (df', msgs')" by (cases st')
    from again [OF Inr [unfolded st'], of msgs'] Inr st' show ?thesis by simp
  qed
  with again clean show ?thesis by blast
qed

theorem mark_absences_idempotent_witness:
  "\<exists>df' msgs'. mark_absences dc_example (roster_example, []) [''26/11''] = Inr (df', msgs') \<and>
     cells roster_example 6 1 = PStr ''--'' \<and> cells df' 6 1 = PStr ''N'' \<and>
     cells df' 6 2 = PInt 0 \<and>
     mark_absences dc_example (df', msgs') [''26/11''] = Inr (df', msgs')"
  using mark_absences_idempotent
      [where dc = dc_example and st = "(roster_example, [])" and dates = "[''26/11'']"]
    mark_absences_example
  by (simp add: roster_example_cells [simplified])

section \<open>The first phase: applying the responses\<close>

lemma process_form_row_result:
  assumes "process_form_row dc s d (df, msgs) f = Inr (df', msgs')"
  shows "no_new_sentinel df df' \<and>
         (separate_columns dc \<longrightarrow> pairs_ok dc df0 df \<longrightarrow> pairs_ok dc df0 df')"
proof -
  from assms obtain key where key: "form_student_key (fr_student_id f) = Inr key"
    by (auto simp: process_form_row_def split: sum.splits)
  show ?thesis
  proof (cases "dc (fr_date f)")
    case None
    with assms key have "df' = df" by (simp add: process_form_row_def)
    then show ?thesis by (simp add: no_new_sentinel_refl)
  next
    case (Some p)
    obtain cc mc where p: "p = (cc, mc)" by (cases p)
    from assms key Some p obtain found where
      fs: "find_student df key [5..<nrows df] = Inr found"
      by (auto simp: process_form_row_def split: sum.splits)
    show ?thesis
    proof (cases found)
      case None
      with assms key Some p fs have "df' = df" by (simp add: process_form_row_def)
      then show ?thesis by (simp add: no_new_sentinel_refl)
    next
      case (Some row)
      with assms key \<open>dc (fr_date f) = Some p\<close> p fs obtain code k df1 where
        ca: "calculate_attendance (fr_completion_time f) s d = Inr (code, k)" and
        s1: "iloc_set df row cc (PStr code) = Inr df1" and
        s2: "iloc_set df1 row mc (PInt k) = Inr df'"
        by (auto simp: process_form_row_def split: sum.splits prod.splits)
      from calculate_attendance_code [OF ca] have code: "code = ''Y'' \<or> (code = ''N'' \<and> k = 0)" .
      then have "PStr code \<noteq> PStr ''--''" by auto
      with s1 have n1: "no_new_sentinel df df1" by (rule iloc_set_no_new_sentinel)
      from s2 have n2: "no_new_sentinel df1 df'" by (rule iloc_set_no_new_sentinel) simp
      from n1 n2 have "no_new_sentinel df df'" by (rule no_new_sentinel_trans)
      moreover have "pairs_ok dc df0 df'" if "separate_columns dc" "pairs_ok dc df0 df"
        using write_pair_ok [OF s1 s2 _ that code] \<open>dc (fr_date f) = Some p\<close> p by simp
      ultimately show ?thesis by simp
    qed
  qed
qed

lemma apply_responses_result:
  "apply_responses dc s d (df, msgs) forms = Inr (df', msgs') \<Longrightarrow>
     no_new_sentinel df df' \<and>
     (separate_columns dc \<longrightarrow> pairs_ok dc df0 df \<longrightarrow> pairs_ok dc df0 df')"
proof (induction forms arbitrary: df msgs)
  case Nil
  then show ?case by (simp add: no_new_sentinel_refl)
next
  case (Cons f forms)
  from Cons.prems obtain df1 msgs1 where
    p: "process_form_row dc s d (df, msgs) f = Inr (df1, msgs1)" and
    rest: "apply_responses dc s d (df1, msgs1) forms = Inr (df', msgs')"
    by (auto split: sum.splits)
  from process_form_row_result [OF p, of df0] Cons.IH [OF rest]
  show ?case by (auto intro: no_new_sentinel_trans)
qed

lemma set_unique: "set (unique xs) = set xs"
  by (induction xs rule: unique.induct) auto

section \<open>Both phases: no sentinel is left\<close>

text \<open>
  Claim C3, as amended. After both phases have run to their end, for every date label
  of the form data that the date columns map, no roster row from index 5 on holds the
  sentinel in that date's code column. When the date columns are separate (no code
  column is the minutes column of an entry), each such code cell, with its minutes cell,
  either holds what the template held there, or \<open>Y\<close> with a whole number of minutes, or
  \<open>N\<close> with 0 minutes; a cell that held the sentinel in the template is in one of the
  last two cases.
\<close>

theorem update_attendance_data_no_sentinel:
  assumes run: "update_attendance_data forms df dc s d = Inr (df', msgs)"
    and f: "f \<in> set forms" and e: "dc (fr_date f) = Some (c, m)"
    and r: "5 \<le> r" "r < nrows df"
  shows "nrows df' = nrows df \<and> ncols df' = ncols df \<and> c < ncols df \<and>
         cells df' r c \<noteq> PStr ''--'' \<and>
         (separate_columns dc \<longrightarrow>
            (cells df' r c = cells df r c \<and> cells df' r m = cells df r m) \<or>
            (\<exists>k. cells df' r c = PStr ''Y'' \<and> cells df' r m = PInt k) \<or>
            (cells df' r c = PStr ''N'' \<and> cells df' r m = PInt 0)) \<and>
         (separate_columns dc \<and> cells df r c = PStr ''--'' \<longrightarrow>
            (\<exists>k. cells df' r c = PStr ''Y'' \<and> cells df' r m = PInt k) \<or>
            (cells df' r c = PStr ''N'' \<and> cells df' r m = PInt 0))"
proof -
  from run obtain df1 msgs1 where
    a: "apply_responses dc s d (df, []) forms = Inr (df1, msgs1)" and
    b: "mark_absences dc (df1, msgs1) (unique (map fr_date forms)) = Inr (df', msgs)"
    by (auto simp: update_attendance_data_def Let_def split: sum.splits)
  from apply_responses_result [OF a, of df] have n1: "no_new_sentinel df df1"
    and p1: "separate_columns dc \<Longrightarrow> pairs_ok dc df df1"
    by (simp_all add: pairs_ok_refl)
  from mark_absences_result [OF b] have n2: "no_new_sentinel df1 df'"
    and dn: "\<forall>d \<in> set (unique (map fr_date forms)). \<forall>cc mc. dc d = Some (cc, mc) \<longrightarrow> col_done df' cc"
    by simp_all
  from n1 n2 have sh: "nrows df' = nrows df" "ncols df' = ncols df"
    by (simp_all add: no_new_sentinel_def)
  from f have "fr_date f \<in> set (unique (map fr_date forms))" by (simp add: set_unique)
  with dn e have "col_done df' c" by blast
  with r sh have cd: "c < ncols df" "cells df' r c \<noteq> PStr ''--''" by (auto simp: col_done_def)
  have pr: "cell_pair_ok df df' r c m" if "separate_columns dc"
    using mark_absences_pairs_ok [OF b that p1 [OF that]] e by (simp add: pairs_ok_def)
  from sh cd pr show ?thesis unfolding cell_pair_ok_def by auto
qed

lemma bit_length_numeral [simp]:
  "bit_length (numeral (Num.Bit0 n)) = Suc (bit_length (numeral n))"
  "bit_length (numeral (Num.Bit1 n)) = Suc (bit_length (numeral n))"
  "bit_length 1 = 1" "bit_length (Suc 0) = 1" "bit_length 0 = 0"
  by (subst bit_length.simps, simp add: bit_length.simps numeral_Bit0_div_2 numeral_Bit1_div_2)+

lemma form_key_example: "form_student_key ''4186054'' = Inr ''4186054''"
  by (simp add: form_student_key_def form_student_int_def py_float_str_def py_int_float_def
      isdigit_def is_digit_def digits_val_def digit_val_def round_double_def py_trunc_def
      str_int_def str_nat.simps digit_char_def char_of_eq_iff)

lemma template_id_examples: "template_student_id (PInt 4186054) = Inr (Some ''4186054'')"
  "template_student_id (PInt 123) = Inr (Some ''123'')"
  by (simp_all add: template_student_id_def isna_def py_int_def 
      str_int_def str_nat.simps digit_char_def char_of_eq_iff)

lemma calculate_examples: "calculate_attendance (nov26 13 15 0 0) ''13:00'' 180 = Inr (''Y'', 165)"
  "calculate_attendance (nov26 13 0 0 0) ''13:00'' 180 = Inr (''Y'', 180)"
  by (simp_all add: eval_defs)

lemma update_example: "update_attendance_data forms_example roster_example dc_example ''13:00'' 180 =
   Inr (roster_example\<lparr>cells := (cells roster_example)
           (5 := (cells roster_example 5)(1 := PStr ''Y'', 2 := PInt 165),
            6 := (cells roster_example 6)(1 := PStr ''N'', 2 := PInt 0))\<rparr>,
        [Updated ''4186054'' ''26/11'' ''Y'' 165, MarkedAbsent (PInt 123) ''26/11''])"
  by (simp add: update_attendance_data_def forms_example_def process_form_row_def form_key_example template_id_examples calculate_examples
      dc_example_def roster_example_cells [simplified] upt_rec iloc_get_def iloc_set_def)

lemma separate_example: "separate_columns dc_example"
  by (auto simp: separate_columns_def dc_example_def split: if_splits)

theorem update_attendance_data_no_sentinel_witness:
  "\<exists>df' msgs. update_attendance_data forms_example roster_example dc_example ''13:00'' 180
       = Inr (df', msgs) \<and>
     separate_columns dc_example \<and> cells roster_example 6 1 = PStr ''--'' \<and>
     cells df' 6 1 = PStr ''N'' \<and> cells df' 6 2 = PInt 0 \<and>
     cells df' 5 1 = PStr ''Y'' \<and> cells df' 5 2 = PInt 165"
proof -
  let ?f = "\<lparr>fr_student_id = ''4186054'', fr_date = ''26/11'', fr_completion_time = nov26 13 15 0 0\<rparr>"
  have f: "?f \<in> set forms_example" by (simp add: forms_example_def)
  have e: "dc_example (fr_date ?f) = Some (1, 2)" by (simp add: dc_example_def)
  have r: "(5::nat) \<le> 6" "6 < nrows roster_example" by (simp_all add: roster_example_cells)
  from update_attendance_data_no_sentinel [OF update_example f e r] separate_example
  have "cells roster_example 6 1 = PStr ''--'' \<longrightarrow>
          (\<exists>k. cells (roster_example\<lparr>cells := (cells roster_example)
           (5 := (cells roster_example 5)(1 := PStr ''Y'', 2 := PInt 165),
            6 := (cells roster_example 6)(1 := PStr ''N'', 2 := PInt 0))\<rparr>) 6 1 = PStr ''Y'' \<and>
             cells (roster_example\<lparr>cells := (cells roster_example)
           (5 := (cells roster_example 5)(1 := PStr ''Y'', 2 := PInt 165),
            6 := (cells roster_example 6)(1 := PStr ''N'', 2 := PInt 0))\<rparr>) 6 2 = PInt k) \<or>
          (cells (roster_example\<lparr>cells := (cells roster_example)
           (5 := (cells roster_example 5)(1 := PStr ''Y'', 2 := PInt 165),
            6 := (cells roster_example 6)(1 := PStr ''N'', 2 := PInt 0))\<rparr>) 6 1 = PStr ''N'' \<and>
           cells (roster_example\<lparr>cells := (cells roster_example)
           (5 := (cells roster_example 5)(1 := PStr ''Y'', 2 := PInt 165),
            6 := (cells roster_example 6)(1 := PStr ''N'', 2 := PInt 0))\<rparr>) 6 2 = PInt 0)"
    by blast
  with update_example separate_example show ?thesis by (simp add: roster_example_cells [simplified])
qed

lemma overlap_example_cells: "nrows overlap_example = 6" "ncols overlap_example = 4"
  "cells overlap_example 5 0 = PInt 4186054" "cells overlap_example 5 1 = PStr ''--''"
  "cells overlap_example 5 2 = PStr ''--''" "cells overlap_example 5 3 = PNaN"
  by (simp_all add: overlap_example_def table_of_def)

lemma overlap_date_columns: "read_template_file overlap_example =
    Inr (overlap_example, [''26/11'' \<mapsto> (1, 2), ''27/11'' \<mapsto> (2, 3)])"
  by (simp add: read_template_file_def overlap_example_def table_of_def enumerate_eq_zip upt_rec
      Let_def numeral_2_eq_2 numeral_3_eq_3)

lemma update_overlap_example: "update_attendance_data overlap_forms overlap_example
      [''26/11'' \<mapsto> (1, 2), ''27/11'' \<mapsto> (2, 3)] ''13:00'' 180 =
   Inr (overlap_example\<lparr>cells := (cells overlap_example)
           (5 := (cells overlap_example 5)(3 := PInt 180, 1 := PStr ''Y'', 2 := PInt 180))\<rparr>,
        [Updated ''4186054'' ''27/11'' ''Y'' 180, Updated ''4186054'' ''26/11'' ''Y'' 180])"
  by (simp add: update_attendance_data_def overlap_forms_def process_form_row_def form_key_example template_id_examples calculate_examples
      overlap_example_cells [simplified] upt_rec iloc_get_def iloc_set_def)

text \<open>
  The claim as stated says every such cell holds a code. A cell of the code column that
  held another value than the sentinel keeps it: the empty cell of the row of totals,
  row 7 of the example, is empty after the run. And with two date labels in adjacent
  columns, as the roster indexer maps them, the minutes of the left date are written into
  the code column of the right one: the cell of row 5 that held the sentinel holds the
  number 180 after the run.
\<close>

theorem update_attendance_data_other_values:
  "(\<exists>df' msgs. update_attendance_data forms_example roster_example dc_example ''13:00'' 180
       = Inr (df', msgs) \<and> (5::nat) \<le> 7 \<and> 7 < nrows roster_example \<and> cells df' 7 1 = PNaN) \<and>
   (\<exists>dc df' msgs. read_template_file overlap_example = Inr (overlap_example, dc) \<and>
      update_attendance_data overlap_forms overlap_example dc ''13:00'' 180 = Inr (df', msgs) \<and>
      dc ''27/11'' = Some (2, 3) \<and> cells overlap_example 5 2 = PStr ''--'' \<and>
      cells df' 5 2 = PInt 180)"
proof -
  have "\<exists>df' msgs. update_attendance_data forms_example roster_example dc_example ''13:00'' 180
       = Inr (df', msgs) \<and> (5::nat) \<le> 7 \<and> 7 < nrows roster_example \<and> cells df' 7 1 = PNaN"
    using update_example by (simp add: roster_example_cells [simplified])
  moreover have "\<exists>dc df' msgs. read_template_file overlap_example = Inr (overlap_example, dc) \<and>
      update_attendance_data overlap_forms overlap_example dc ''13:00'' 180 = Inr (df', msgs) \<and>
      dc ''27/11'' = Some (2, 3) \<and> cells overlap_example 5 2 = PStr ''--'' \<and>
      cells df' 5 2 = PInt 180"
    using overlap_date_columns update_overlap_example by (simp add: overlap_example_cells [simplified])
  ultimately show ?thesis by blast
qed

section \<open>Identifiers as numbers\<close>

lemma digit_val_digit_char: "d < 10 \<Longrightarrow> digit_val (digit_char d) = d"
  by (simp add: digit_val_def digit_char_def of_char_of)

lemma is_digit_digit_char: "d < 10 \<Longrightarrow> is_digit (digit_char d)"
proof -
  assume "d < 10"
  then have "d = 0 \<or> d = 1 \<or> d = 2 \<or> d = 3 \<or> d = 4 \<or> d = 5 \<or> d = 6 \<or> d = 7 \<or> d = 8 \<or> d = 9"
    by presburger
  then show ?thesis by (auto simp: is_digit_def digit_char_def char_of_eq_iff)
qed

lemma digits_val_snoc: "digits_val (s @ [c]) = 10 * digits_val s + digit_val c"
  by (simp add: digits_val_def)

lemma digits_val_str_nat: "digits_val (str_nat n) = n"
proof (induction n rule: str_nat.induct)
  case (1 n)
  show ?case
  proof (cases "n < 10")
    case True
    then show ?thesis
      by (subst str_nat.simps) (simp add: digits_val_def digit_val_digit_char)
  next
    case False
    with "1.IH" have "digits_val (str_nat (n div 10)) = n div 10" by simp
    with False show ?thesis
      by (subst str_nat.simps) (simp add: digits_val_snoc digit_val_digit_char)
  qed
qed

lemma str_nat_digits: "isdigit (str_nat n)"
proof (induction n rule: str_nat.induct)
  case (1 n)
  show ?case
  proof (cases "n < 10")
    case True
    then show ?thesis
      by (subst str_nat.simps) (simp add: isdigit_def is_digit_digit_char)
  next
    case False
    with "1.IH" have "isdigit (str_nat (n div 10))" by simp
    with False show ?thesis
      by (subst str_nat.simps) (simp add: isdigit_def is_digit_digit_char)
  qed
qed

lemma str_nat_inj: "str_nat a = str_nat b \<Longrightarrow> a = b"
  by (metis digits_val_str_nat)

lemma str_nat_no_minus: "str_nat n \<noteq> CHR ''-'' # s"
proof
  assume "str_nat n = CHR ''-'' # s"
  with str_nat_digits [of n] have "is_digit (CHR ''-'')" by (simp add: isdigit_def)
  then show False by (simp add: is_digit_def)
qed

lemma str_int_inj: "str_int i = str_int j \<longleftrightarrow> i = j"
proof
  assume a: "str_int i = str_int j"
  show "i = j"
  proof (cases "i < 0")
    case True
    show ?thesis
    proof (cases "j < 0")
      case True
      with a \<open>i < 0\<close> have "nat (- i) = nat (- j)" by (auto simp: str_int_def dest: str_nat_inj)
      with True \<open>i < 0\<close> show ?thesis by simp
    next
      case False
      with a [symmetric] \<open>i < 0\<close> show ?thesis
        using str_nat_no_minus [of "nat j"] by (simp add: str_int_def)
    qed
  next
    case False
    show ?thesis
    proof (cases "j < 0")
      case True
      with a \<open>\<not> i < 0\<close> show ?thesis using str_nat_no_minus [of "nat i"] by (simp add: str_int_def)
    next
      case False
      with a \<open>\<not> i < 0\<close> have "nat i = nat j" by (auto simp: str_int_def dest: str_nat_inj)
      with False \<open>\<not> i < 0\<close> show ?thesis by simp
    qed
  qed
qed simp

lemma digits_val_leading_zeros: "digits_val (replicate n (CHR ''0'') @ s) = digits_val s"
proof -
  have "foldl (\<lambda>a c. 10 * a + digit_val c) 0 (replicate n (CHR ''0'')) = 0"
    by (induction n) (simp_all add: digit_val_def)
  then show ?thesis by (simp add: digits_val_def)
qed

lemma isdigit_leading_zeros: "isdigit s \<Longrightarrow> isdigit (replicate n (CHR ''0'') @ s)"
proof -
  assume a: "isdigit s"
  have "is_digit (CHR ''0'')" by (simp add: is_digit_def)
  with a show ?thesis by (auto simp: isdigit_def list_all_iff)
qed

lemma bit_length_le: "n < 2 ^ k \<Longrightarrow> bit_length n \<le> k"
proof (induction k arbitrary: n)
  case 0
  then show ?case by (simp add: bit_length.simps)
next
  case (Suc k)
  then have "n div 2 < 2 ^ k" by simp
  from Suc.IH [OF this] show ?case by (subst bit_length.simps) simp
qed

lemma py_trunc_nat: "py_trunc (real n) = int n"
  by (simp add: py_trunc_def)

lemma form_student_int_exact:
  assumes "isdigit s" "digits_val s < 2 ^ 53"
  shows "form_student_int s = Inr (int (digits_val s))"
  using assms bit_length_le [OF assms(2)]
  by (simp add: form_student_int_def py_float_str_def round_double_def py_int_float_def py_trunc_nat)

lemma form_student_int_leading_zeros:
  assumes "isdigit s"
  shows "form_student_int (replicate n (CHR ''0'') @ s) = form_student_int s"
  using assms isdigit_leading_zeros [OF assms, of n]
  by (simp add: form_student_int_def py_float_str_def digits_val_leading_zeros)





text \<open>
  Claim C10. The reconciler compares the two identifiers after a numeric conversion, not
  as the texts they came as: the form identifier \<open>0123\<close> and the roster cell 123 both
  become \<open>123\<close>. Whenever both conversions succeed, the compared texts are the decimal
  texts of the two integers, and they are equal exactly when the integers are. Leading
  zeros of a form identifier change nothing, and an identifier below \<open>2 ^ 53\<close> converts
  to the integer it spells (a larger one to the integer of the nearest float).
\<close>

theorem student_ids_match_as_integers:
  "form_student_key ''0123'' = Inr ''123'' \<and>
   template_student_id (PInt 123) = Inr (Some ''123'') \<and>
   (form_student_int s = Inr i \<and> \<not> isna v \<and> py_int v = Inr j \<longrightarrow>
      form_student_key s = Inr (str_int i) \<and>
      template_student_id v = Inr (Some (str_int j)) \<and>
      (Some (str_int j) = Some (str_int i) \<longleftrightarrow> j = i)) \<and>
   (isdigit s \<longrightarrow> form_student_key (replicate n (CHR ''0'') @ s) = form_student_key s) \<and>
   (isdigit s \<and> digits_val s < 2 ^ 53 \<longrightarrow> form_student_int s = Inr (int (digits_val s)))"
proof -
  have 1: "form_student_key ''0123'' = Inr ''123''"
    by (simp add: form_student_key_def form_student_int_def py_float_str_def py_int_float_def
      isdigit_def is_digit_def digits_val_def digit_val_def round_double_def py_trunc_def
      str_int_def str_nat.simps digit_char_def char_of_eq_iff)
  have 2: "template_student_id (PInt 123) = Inr (Some ''123'')"
    by (rule template_id_examples)
  have 3: "form_student_key s = Inr (str_int i) \<and>
      template_student_id v = Inr (Some (str_int j)) \<and>
      (Some (str_int j) = Some (str_int i) \<longleftrightarrow> j = i)"
    if "form_student_int s = Inr i" "\<not> isna v" "py_int v = Inr j"
    using that by (simp add: form_student_key_def template_student_id_def str_int_inj)
  have 4: "form_student_key (replicate n (CHR ''0'') @ s) = form_student_key s" if "isdigit s"
    using form_student_int_leading_zeros [OF that, of n] by (simp add: form_student_key_def)
  from 1 2 3 4 form_student_int_exact [of s] show ?thesis by blast
qed

theorem student_ids_match_as_integers_witness:
  "isdigit ''123'' \<and> digits_val ''123'' < 2 ^ 53 \<and> form_student_int ''123'' = Inr 123 \<and>
   py_int (PInt 123) = Inr 123 \<and>
   form_student_key (replicate 1 (CHR ''0'') @ ''123'') = form_student_key ''123'' \<and>
   form_student_key ''0123'' = Inr ''123'' \<and>
   find_student roster_example ''123'' [5..<nrows roster_example] = Inr (Some 6)"
proof -
  have d: "isdigit ''123''" "digits_val ''123'' = 123"
    by (simp_all add: isdigit_def is_digit_def digits_val_def digit_val_def)
  have p: "py_int (PInt 123) = Inr 123" by (simp add: py_int_def)
  have "template_student_id (PInt 4186054) = Inr (Some ''4186054'')" by (rule template_id_examples)
  then have f: "find_student roster_example ''123'' [5..<nrows roster_example] = Inr (Some 6)"
    using template_id_examples(2)
    by (simp add: roster_example_cells [simplified] upt_rec iloc_get_def)
  from student_ids_match_as_integers [of "''123''" 123 "PInt 123" 123 1] d
  have "form_student_int ''123'' = Inr 123"
    and "form_student_key (replicate 1 (CHR ''0'') @ ''123'') = form_student_key ''123''"
    and "form_student_key ''0123'' = Inr ''123''"
    by auto
  with d p f show ?thesis by simp
qed

section \<open>Recoverable conditions\<close>






















end
